theory Spec2Isabelle
  imports Main "HOL-Library.Word" "HOL-Library.AList"
begin

unbundle bit_operations_syntax

section \<open>Basic protocol types\<close>

text \<open>
  The Go types \<open>protocol.PacketNumber\<close>, \<open>protocol.ByteCount\<close> and
  \<open>congestion.Bandwidth\<close> are unsigned 64-bit integers, \<open>protocol.PathID\<close> is an
  unsigned 8-bit integer and \<open>time.Duration\<close> is a signed 64-bit count of nanoseconds.
  A \<open>time.Time\<close> is modelled as the number of nanoseconds since the zero time, so
  that \<open>IsZero\<close> is the test against 0.
\<close>

type_synonym PacketNumber = "64 word"
type_synonym ByteCount = "64 word"
type_synonym Bandwidth = "64 word"
type_synonym PathID = "8 word"
type_synonym Duration = "64 word"
type_synonym Time = int

definition Millisecond :: Duration where
  "Millisecond = 1000000"

definition Second :: Duration where
  "Second = 1000000000"

text \<open>\<open>utils.MaxDuration\<close> and \<open>utils.MinDuration\<close> compare signed durations.\<close>

definition MaxDuration :: "Duration \<Rightarrow> Duration \<Rightarrow> Duration" where
  "MaxDuration a b = (if b <s a then a else b)"

definition MinDuration :: "Duration \<Rightarrow> Duration \<Rightarrow> Duration" where
  "MinDuration a b = (if b <s a then b else a)"

text \<open>\<open>Time.Add\<close>, \<open>Time.Sub\<close> (which saturates at the ends of the Duration range)
  and \<open>Time.IsZero\<close>.\<close>

definition Add :: "Time \<Rightarrow> Duration \<Rightarrow> Time" where
  "Add t d = t + sint d"

definition Sub :: "Time \<Rightarrow> Time \<Rightarrow> Duration" where
  "Sub t u = (if t - u > 2 ^ 63 - 1 then word_of_int (2 ^ 63 - 1)
              else if t - u < - (2 ^ 63) then word_of_int (- (2 ^ 63))
              else word_of_int (t - u))"

definition IsZero :: "Time \<Rightarrow> bool" where
  "IsZero t = (t = 0)"

section \<open>Bandwidth estimator (congestion/bdw_stats.go)\<close>

record BDWStats =
  bandwidth :: Bandwidth
  compareWindow :: "Bandwidth list"
  roundRobinIndex :: "8 word"

definition NewBDWStats :: "Bandwidth \<Rightarrow> BDWStats" where
  "NewBDWStats bw = \<lparr>bandwidth = bw, compareWindow = replicate 10 0, roundRobinIndex = 0\<rparr>"

definition GetBandwidth :: "BDWStats \<Rightarrow> Bandwidth" where
  "GetBandwidth b = bandwidth b div 1048576"

definition BytesPerSecond :: Bandwidth where
  "BytesPerSecond = 8"

text \<open>The body of \<open>UpdateBDW\<close> that sits behind the \<open>disable\<close> flag. The division
  panics on a zero delay, which is the result \<open>None\<close>.\<close>

definition UpdateBDW_body :: "BDWStats \<Rightarrow> ByteCount \<Rightarrow> Duration \<Rightarrow> BDWStats option" where
  "UpdateBDW_body b sentDelta sentDelay =
     (if sentDelay = 0 then None
      else
        let bdw = sentDelta * Second div sentDelay * BytesPerSecond;
            size = (word_of_nat (length (compareWindow b)) :: 8 word);
            startIndex = roundRobinIndex b;
            cw = (compareWindow b)[unat (startIndex mod size) := bdw];
            rr = (roundRobinIndex b + 1) mod size;
            bw = fold (\<lambda>w acc. if acc < w then w else acc) cw (bandwidth b)
        in Some (b\<lparr>bandwidth := bw, compareWindow := cw, roundRobinIndex := rr\<rparr>))"

definition UpdateBDW :: "BDWStats \<Rightarrow> ByteCount \<Rightarrow> Duration \<Rightarrow> BDWStats option" where
  "UpdateBDW b sentDelta sentDelay =
     (let disable = True
      in if \<not> disable then UpdateBDW_body b sentDelta sentDelay else Some b)"

section \<open>Path manager (path_manager.go)\<close>

datatype Perspective = PerspectiveServer | PerspectiveClient

text \<open>A UDP address is kept as its IP text and port; two addresses have the same
  \<open>String()\<close> exactly when both agree.\<close>

record UDPAddr =
  IP :: string
  Port :: nat

record path =
  pathID :: PathID
  locAddr :: UDPAddr
  remAddr :: UDPAddr
  initialRTT :: Duration
  initialBandwidth :: Bandwidth

text \<open>The part of the session the path manager touches, and the manager itself
  (\<open>pathManager.setup\<close> is \<open>pm_setup\<close> here). The
  map \<open>sess.paths\<close> is an association list read with \<open>map_of\<close>.\<close>

record pathManager =
  perspective :: Perspective
  paths :: "(PathID \<times> path) list"
  openPaths :: "PathID list"
  nxtPathID :: PathID
  nbPaths :: "8 word"

datatype pmError =
    ErrPathExists
  | ErrOddPathID
  | ErrEvenPathID
  | ErrSendPing

definition InitialPathID :: PathID where
  "InitialPathID = 0"

definition statsForIP :: "string \<Rightarrow> Duration \<times> Bandwidth" where
  "statsForIP ip =
     (if ip = ''10.0.0.1'' then (1 * Millisecond, 1 * 1048576)
      else if ip = ''10.0.1.1'' then (1 * Millisecond, 20 * 1048576)
      else (0, 0))"

definition pm_setup :: "pathManager \<Rightarrow> UDPAddr \<Rightarrow> UDPAddr \<Rightarrow> pathManager" where
  "pm_setup pm loc rem =
     (let pm1 = pm\<lparr>nxtPathID := (if perspective pm = PerspectiveClient then 1 else 2)\<rparr>;
          pm2 = pm1\<lparr>nbPaths := 0\<rparr>;
          p0 = \<lparr>pathID = InitialPathID, locAddr = loc, remAddr = rem,
                initialRTT = 0, initialBandwidth = 0\<rparr>
      in pm2\<lparr>paths := AList.update InitialPathID p0 (paths pm2),
              openPaths := openPaths pm2 @ [InitialPathID]\<rparr>)"

text \<open>\<open>createPath\<close>: \<open>sendPing\<close> is the session's call, whose error (if any) is the
  result; the path has been inserted by then.\<close>

definition createPath ::
  "(path \<Rightarrow> bool) \<Rightarrow> pathManager \<Rightarrow> UDPAddr \<Rightarrow> UDPAddr \<Rightarrow> pmError option \<times> pathManager" where
  "createPath sendPingFails pm loc rem =
     (if \<exists>p \<in> set (map snd (paths pm)). locAddr p = loc \<and> remAddr p = rem
      then (None, pm)
      else
        let (rtt, bw) = statsForIP (IP loc);
            pth = \<lparr>pathID = nxtPathID pm, locAddr = loc, remAddr = rem,
                   initialRTT = rtt, initialBandwidth = bw\<rparr>;
            pm1 = pm\<lparr>paths := AList.update (nxtPathID pm) pth (paths pm),
                      openPaths := openPaths pm @ [nxtPathID pm]\<rparr>;
            pm2 = pm1\<lparr>nxtPathID := nxtPathID pm1 + 2\<rparr>
        in (if sendPingFails pth then Some ErrSendPing else None, pm2))"

definition createPathFromRemote ::
  "pathManager \<Rightarrow> PathID \<Rightarrow> UDPAddr \<Rightarrow> UDPAddr \<Rightarrow> (pmError + path) \<times> pathManager" where
  "createPathFromRemote pm pid loc rem =
     (if map_of (paths pm) pid \<noteq> None then (Inl ErrPathExists, pm)
      else if perspective pm = PerspectiveClient \<and> pid mod 2 \<noteq> 0 then (Inl ErrOddPathID, pm)
      else if perspective pm = PerspectiveServer \<and> pid mod 2 = 0 then (Inl ErrEvenPathID, pm)
      else
        let (rtt, bw) = statsForIP (IP rem);
            pth = \<lparr>pathID = pid, locAddr = loc, remAddr = rem,
                   initialRTT = rtt, initialBandwidth = bw\<rparr>
        in (Inr pth, pm\<lparr>paths := AList.update pid pth (paths pm),
                         openPaths := openPaths pm @ [pid]\<rparr>))"

text \<open>A run of \<open>createPath\<close> calls, one per address pair, as \<open>createPaths\<close> issues
  them on a client; an error of \<open>sendPing\<close> ends the run.\<close>

fun createPathsRun ::
  "(path \<Rightarrow> bool) \<Rightarrow> pathManager \<Rightarrow> (UDPAddr \<times> UDPAddr) list \<Rightarrow> pathManager" where
  "createPathsRun sp pm [] = pm"
| "createPathsRun sp pm ((l, r) # rest) =
     (case createPath sp pm l r of
        (Some e, pm') \<Rightarrow> pm'
      | (None, pm') \<Rightarrow> createPathsRun sp pm' rest)"

section \<open>Frames and packets\<close>

text \<open>\<open>wire.AckRange\<close> (internal/wire/ack_range.go).\<close>

record AckRange =
  First :: PacketNumber
  Last :: PacketNumber

text \<open>Modelled from the spec: \<open>wire.AckFrame\<close> (internal/wire/ack_frame.go is not
  among the sources), with the fields of the data model:
  \<open>{PathID, LargestAcked, LowestAcked, DelayTime, AckRanges[]}\<close>. A CLOSE_PATH frame
  "behaves like an ACK" and carries the same fields, so \<open>wire.ClosePathFrame\<close> is the
  same record.\<close>

record AckFrame =
  ackPathID :: PathID
  ackLargestAcked :: PacketNumber
  ackLowestAcked :: PacketNumber
  ackDelayTime :: Duration
  AckRanges :: "AckRange list"

type_synonym ClosePathFrame = AckFrame

text \<open>Modelled from the spec: \<open>HasMissingRanges = len(AckRanges) > 1\<close>.\<close>

definition HasMissingRanges :: "AckFrame \<Rightarrow> bool" where
  "HasMissingRanges f = (length (AckRanges f) > 1)"

text \<open>Modelled from the spec: \<open>AckFrame.AcksPacket\<close>, the test whether a packet number
  is covered by the frame: the number lies in \<open>[LowestAcked, LargestAcked]\<close> and belongs
  to some declared AckRange (or \<open>HasMissingRanges\<close> is false).\<close>

definition AcksPacket :: "AckFrame \<Rightarrow> PacketNumber \<Rightarrow> bool" where
  "AcksPacket f p =
     (if p < ackLowestAcked f \<or> p > ackLargestAcked f then False
      else if HasMissingRanges f
        then list_ex (\<lambda>r. p \<ge> First r \<and> p \<le> Last r) (AckRanges f)
      else True)"

record StopWaitingFrame =
  LeastUnacked :: PacketNumber
  swfPacketNumber :: PacketNumber
  swfPacketNumberLen :: "8 word"

record StreamFrame =
  StreamID :: "32 word"
  Offset :: ByteCount
  FinBit :: bool
  DataLenPresent :: bool
  Data :: "8 word list"

text \<open>The frame kinds of \<open>wire.Frame\<close> that the handler and the packer distinguish; the
  remaining control frames carry no field that matters here.\<close>

datatype Frame =
    FStopWaiting StopWaitingFrame
  | FAck AckFrame
  | FPing
  | FStream StreamFrame
  | FBlocked "32 word"
  | FRstStream "32 word"
  | FWindowUpdate "32 word" ByteCount
  | FConnectionClose
  | FClosePath ClosePathFrame
  | FAddAddress
  | FPaths

datatype EncryptionLevel =
    EncryptionUnspecified
  | EncryptionUnencrypted
  | EncryptionSecure
  | EncryptionForwardSecure

text \<open>Modelled from the spec: the in-flight record
  \<open>{PacketNumber, Length, Frames, SendTime, EncryptionLevel}\<close> (ackhandler/packet.go is
  not among the sources).\<close>

record Packet =
  PacketNumber :: PacketNumber
  Frames :: "Frame list"
  Length :: ByteCount
  EncryptionLevel :: EncryptionLevel
  SendTime :: Time

text \<open>Modelled from the spec: \<open>stripNonRetransmittableFrames\<close> drops the pure ACK and
  STOP_WAITING frames and keeps every other frame.\<close>

definition IsFrameRetransmittable :: "Frame \<Rightarrow> bool" where
  "IsFrameRetransmittable f = (case f of FStopWaiting _ \<Rightarrow> False | FAck _ \<Rightarrow> False | _ \<Rightarrow> True)"

definition stripNonRetransmittableFrames :: "Frame list \<Rightarrow> Frame list" where
  "stripNonRetransmittableFrames fs = filter IsFrameRetransmittable fs"

section \<open>The packet history list\<close>

text \<open>\<open>PacketList\<close> is a doubly linked list of \<open>PacketElement\<close>s, which the handler
  holds and removes by pointer. An element is a value with an identity: \<open>elemId\<close> stands
  for the address of the element, and \<open>PushBack\<close> allocates a fresh one.\<close>

record PacketElement =
  elemId :: nat
  Value :: Packet

record PacketList =
  elems :: "PacketElement list"
  nextElem :: nat

definition NewPacketList :: PacketList where
  "NewPacketList = \<lparr>elems = [], nextElem = 0\<rparr>"

definition Front :: "PacketList \<Rightarrow> PacketElement option" where
  "Front l = (case elems l of [] \<Rightarrow> None | e # _ \<Rightarrow> Some e)"

definition Back :: "PacketList \<Rightarrow> PacketElement option" where
  "Back l = (if elems l = [] then None else Some (last (elems l)))"

definition Len :: "PacketList \<Rightarrow> nat" where
  "Len l = length (elems l)"

definition PushBack :: "PacketList \<Rightarrow> Packet \<Rightarrow> PacketList" where
  "PushBack l v = l\<lparr>elems := elems l @ [\<lparr>elemId = nextElem l, Value = v\<rparr>],
                    nextElem := Suc (nextElem l)\<rparr>"

definition Remove :: "PacketList \<Rightarrow> PacketElement \<Rightarrow> PacketList" where
  "Remove l e = l\<lparr>elems := filter (\<lambda>x. elemId x \<noteq> elemId e) (elems l)\<rparr>"

section \<open>Stop-waiting manager (ackhandler/stop_waiting_manager.go)\<close>

record stopWaitingManager =
  largestLeastUnackedSent :: PacketNumber
  nextLeastUnacked :: PacketNumber
  lastStopWaitingFrame :: "StopWaitingFrame option"

definition newStopWaitingManager :: stopWaitingManager where
  "newStopWaitingManager =
     \<lparr>largestLeastUnackedSent = 0, nextLeastUnacked = 0, lastStopWaitingFrame = None\<rparr>"

definition swm_GetStopWaitingFrame ::
  "stopWaitingManager \<Rightarrow> bool \<Rightarrow> StopWaitingFrame option \<times> stopWaitingManager" where
  "swm_GetStopWaitingFrame s force =
     (if nextLeastUnacked s \<le> largestLeastUnackedSent s then
        (if force then
           (let s1 = (if lastStopWaitingFrame s = None \<and> largestLeastUnackedSent s > 0
                      then s\<lparr>lastStopWaitingFrame :=
                             Some \<lparr>LeastUnacked = nextLeastUnacked s, swfPacketNumber = 0,
                                   swfPacketNumberLen = 0\<rparr>\<rparr>
                      else s)
            in (lastStopWaitingFrame s1, s1))
         else (None, s))
      else
        (let swf = \<lparr>LeastUnacked = nextLeastUnacked s, swfPacketNumber = 0,
                    swfPacketNumberLen = 0\<rparr>
         in (Some swf, s\<lparr>largestLeastUnackedSent := nextLeastUnacked s,
                          lastStopWaitingFrame := Some swf\<rparr>)))"

definition swm_ReceivedAck :: "stopWaitingManager \<Rightarrow> AckFrame \<Rightarrow> stopWaitingManager" where
  "swm_ReceivedAck s ack =
     (if ackLargestAcked ack \<ge> nextLeastUnacked s
      then s\<lparr>nextLeastUnacked := ackLargestAcked ack + 1\<rparr> else s)"

definition QueuedRetransmissionForPacketNumber ::
  "stopWaitingManager \<Rightarrow> PacketNumber \<Rightarrow> stopWaitingManager" where
  "QueuedRetransmissionForPacketNumber s p =
     (if p \<ge> nextLeastUnacked s then s\<lparr>nextLeastUnacked := p + 1\<rparr> else s)"

section \<open>Sent-packet handler (ackhandler/sent_packet_handler.go)\<close>

definition defaultRTOTimeout :: Duration where
  "defaultRTOTimeout = 500 * Millisecond"

definition minRTOTimeout :: Duration where
  "minRTOTimeout = 200 * Millisecond"

definition maxRTOTimeout :: Duration where
  "maxRTOTimeout = 60 * Second"

definition maxTailLossProbes :: "32 word" where
  "maxTailLossProbes = 2"

definition minRetransmissionTime :: Duration where
  "minRetransmissionTime = 200 * Millisecond"

definition minTailLossProbeTimeout :: Duration where
  "minTailLossProbeTimeout = 10 * Millisecond"

datatype ackError =
    ErrDuplicateOrOutOfOrderAck
  | ErrTooManyTrackedSentPackets
  | ErrAckForSkippedPacket
  | errAckForUnsentPacket
  | errPacketNumberNotIncreasing
  | ErrBUGWrongPacket
  | ErrPanic

text \<open>What the handler is given from outside. \<open>'c\<close> is the state of the congestion
  controller (\<open>congestion.SendAlgorithm\<close>) together with the \<open>RTTStats\<close> object that the
  controller and the handler share; the fields are their methods. \<open>IsRetransmittable\<close>
  is the method of \<open>Packet\<close>; \<open>lossDelay\<close> is the float64 computation
  \<open>time.Duration((1.0 + timeReorderingFraction) * maxRTT)\<close>; the last two fields are
  the constants of package \<open>protocol\<close>. Every definition below holds for any such
  record.\<close>

record 'c deps =
  OnPacketSent :: "'c \<Rightarrow> Time \<Rightarrow> ByteCount \<Rightarrow> PacketNumber \<Rightarrow> ByteCount \<Rightarrow> bool \<Rightarrow> 'c"
  OnPacketAcked :: "'c \<Rightarrow> PacketNumber \<Rightarrow> ByteCount \<Rightarrow> ByteCount \<Rightarrow> 'c"
  OnPacketLost :: "'c \<Rightarrow> PacketNumber \<Rightarrow> ByteCount \<Rightarrow> ByteCount \<Rightarrow> 'c"
  MaybeExitSlowStart :: "'c \<Rightarrow> 'c"
  OnRetransmissionTimeout :: "'c \<Rightarrow> bool \<Rightarrow> 'c"
  RetransmissionDelay :: "'c \<Rightarrow> Duration"
  SmoothedRTT :: "'c \<Rightarrow> Duration"
  GetCongestionWindow :: "'c \<Rightarrow> ByteCount"
  UpdateRTT :: "'c \<Rightarrow> Duration \<Rightarrow> Duration \<Rightarrow> Time \<Rightarrow> 'c"
  rttSmoothedRTT :: "'c \<Rightarrow> Duration"
  rttLatestRTT :: "'c \<Rightarrow> Duration"
  IsRetransmittable :: "Packet \<Rightarrow> bool"
  lossDelay :: "Duration \<Rightarrow> Duration"
  MaxTrackedSentPackets :: PacketNumber
  MaxTrackedSkippedPackets :: nat

record 'c sentPacketHandler =
  lastSentPacketNumber :: PacketNumber
  skippedPackets :: "PacketNumber list"
  handlerPathID :: PathID
  numNonRetransmittablePackets :: int
  LargestAcked :: PacketNumber
  largestReceivedPacketWithAck :: PacketNumber
  packetHistory :: PacketList
  stopWaitingManager :: stopWaitingManager
  retransmissionQueue :: "Packet list"
  bytesInFlight :: ByteCount
  congestion :: 'c
  bdwStats :: BDWStats
  onRTOCallback :: "(Time \<Rightarrow> bool) option"
  rtoCount :: "32 word"
  tlpCount :: "32 word"
  lossTime :: Time
  lastSentTime :: Time
  alarm :: Time
  packets :: "64 word"
  retransmissions :: "64 word"
  losses :: "64 word"

definition NewSentPacketHandler ::
  "PathID \<Rightarrow> BDWStats \<Rightarrow> 'c \<Rightarrow> (Time \<Rightarrow> bool) option \<Rightarrow> 'c sentPacketHandler" where
  "NewSentPacketHandler pid bdw cong cb =
     \<lparr>lastSentPacketNumber = 0, skippedPackets = [], handlerPathID = pid,
      numNonRetransmittablePackets = 0, LargestAcked = 0, largestReceivedPacketWithAck = 0,
      packetHistory = NewPacketList, stopWaitingManager = newStopWaitingManager,
      retransmissionQueue = [], bytesInFlight = 0, congestion = cong, bdwStats = bdw,
      onRTOCallback = cb, rtoCount = 0, tlpCount = 0, lossTime = 0, lastSentTime = 0,
      alarm = 0, packets = 0, retransmissions = 0, losses = 0\<rparr>"

definition largestInOrderAcked :: "'c sentPacketHandler \<Rightarrow> PacketNumber" where
  "largestInOrderAcked h =
     (case Front (packetHistory h) of
        Some f \<Rightarrow> PacketNumber (Value f) - 1
      | None \<Rightarrow> LargestAcked h)"

definition hasMultipleOutstandingRetransmittablePackets :: "'c sentPacketHandler \<Rightarrow> bool" where
  "hasMultipleOutstandingRetransmittablePackets h =
     (case elems (packetHistory h) of _ # _ # _ \<Rightarrow> True | _ \<Rightarrow> False)"

text \<open>Go's \<open>/\<close> on a signed duration truncates towards zero.\<close>

definition DurationDiv :: "Duration \<Rightarrow> int \<Rightarrow> Duration" where
  "DurationDiv d k = word_of_int (sgn (sint d) * sgn k * (\<bar>sint d\<bar> div \<bar>k\<bar>))"

definition computeRTOTimeout :: "'c deps \<Rightarrow> 'c sentPacketHandler \<Rightarrow> Duration" where
  "computeRTOTimeout I h =
     (let rto = RetransmissionDelay I (congestion h);
          rto = (if rto = 0 then defaultRTOTimeout else rto);
          rto = MaxDuration rto minRTOTimeout;
          rto = push_bit (unat (rtoCount h)) rto
      in MinDuration rto maxRTOTimeout)"

definition computeTLPTimeout :: "'c deps \<Rightarrow> 'c sentPacketHandler \<Rightarrow> Duration" where
  "computeTLPTimeout I h =
     (let rtt = SmoothedRTT I (congestion h)
      in if hasMultipleOutstandingRetransmittablePackets h
         then MaxDuration (2 * rtt) (DurationDiv (rtt * 3) 2 + DurationDiv minRetransmissionTime 2)
         else MaxDuration (2 * rtt) minTailLossProbeTimeout)"

definition updateLossDetectionAlarm ::
  "'c deps \<Rightarrow> 'c sentPacketHandler \<Rightarrow> 'c sentPacketHandler" where
  "updateLossDetectionAlarm I h =
     (if Len (packetHistory h) = 0 then h\<lparr>alarm := 0\<rparr>
      else if \<not> IsZero (lossTime h) then h\<lparr>alarm := lossTime h\<rparr>
      else if rttSmoothedRTT I (congestion h) \<noteq> 0 \<and> tlpCount h < maxTailLossProbes
        then h\<lparr>alarm := Add (lastSentTime h) (computeTLPTimeout I h)\<rparr>
      else h\<lparr>alarm := Add (lastSentTime h)
                         (MaxDuration (computeRTOTimeout I h) minRetransmissionTime)\<rparr>)"

definition onPacketAcked ::
  "'c sentPacketHandler \<Rightarrow> PacketElement \<Rightarrow> 'c sentPacketHandler" where
  "onPacketAcked h packetElement =
     h\<lparr>bytesInFlight := bytesInFlight h - Length (Value packetElement),
       rtoCount := 0,
       tlpCount := 0,
       packetHistory := Remove (packetHistory h) packetElement\<rparr>"

definition queuePacketForRetransmission ::
  "'c sentPacketHandler \<Rightarrow> PacketElement \<Rightarrow> 'c sentPacketHandler" where
  "queuePacketForRetransmission h packetElement =
     (let packet = Value packetElement
      in h\<lparr>bytesInFlight := bytesInFlight h - Length packet,
            retransmissionQueue := retransmissionQueue h @ [packet],
            packetHistory := Remove (packetHistory h) packetElement,
            stopWaitingManager :=
              QueuedRetransmissionForPacketNumber (stopWaitingManager h) (PacketNumber packet)\<rparr>)"

definition queueRTO ::
  "'c deps \<Rightarrow> 'c sentPacketHandler \<Rightarrow> PacketElement \<Rightarrow> 'c sentPacketHandler" where
  "queueRTO I h el =
     (let packet = Value el;
          h1 = queuePacketForRetransmission h el;
          h2 = h1\<lparr>losses := losses h1 + 1\<rparr>
      in h2\<lparr>congestion := OnPacketLost I (congestion h2) (PacketNumber packet) (Length packet)
                                          (bytesInFlight h2)\<rparr>)"

text \<open>The loop of \<open>SentPacket\<close> over the packet numbers skipped since the last
  sent one.\<close>

function skipLoop ::
  "nat \<Rightarrow> PacketNumber \<Rightarrow> PacketNumber \<Rightarrow> PacketNumber list \<Rightarrow> PacketNumber list" where
  "skipLoop m p pn sk =
     (if p < pn
      then skipLoop m (p + 1) pn
             (let sk1 = sk @ [p] in if length sk1 > m then tl sk1 else sk1)
      else sk)"
  by pat_completeness auto

termination skipLoop
proof (relation "measure (\<lambda>(m, p, pn, sk). unat pn - unat p)")
  show "wf (measure (\<lambda>(m, p, pn, sk). unat pn - unat p))"
    by simp
next
  fix m :: nat and p pn :: PacketNumber and sk x :: "PacketNumber list"
  assume a: "p < pn"
  have "p + 1 \<noteq> 0"
  proof
    assume "p + 1 = 0"
    then have "p = - 1" by (simp add: eq_neg_iff_add_eq_0)
    with a show False by simp
  qed
  then have "1 + p \<noteq> 0" by (simp add: add.commute)
  then have "unat (1 + p) = Suc (unat p)" by (rule unatSuc)
  then have "unat (p + 1) = Suc (unat p)" by (simp add: add.commute)
  with a show "((m, p + 1, pn, let sk1 = sk @ [p] in if m < length sk1 then tl sk1 else sk1),
                m, p, pn, sk) \<in> measure (\<lambda>(m, p, pn, sk). unat pn - unat p)"
    by (simp add: word_less_nat_alt)
qed

declare skipLoop.simps [simp del]

definition SentPacket ::
  "'c deps \<Rightarrow> 'c sentPacketHandler \<Rightarrow> Packet \<Rightarrow> Time \<Rightarrow> ackError option \<times> 'c sentPacketHandler" where
  "SentPacket I h packet now =
     (if PacketNumber packet \<le> lastSentPacketNumber h then (Some errPacketNumberNotIncreasing, h)
      else if word_of_nat (length (retransmissionQueue h) + Len (packetHistory h) + 1)
                > MaxTrackedSentPackets I
        then (Some ErrTooManyTrackedSentPackets, h)
      else
        let h1 = h\<lparr>skippedPackets :=
                     skipLoop (MaxTrackedSkippedPackets I) (lastSentPacketNumber h + 1)
                       (PacketNumber packet) (skippedPackets h)\<rparr>;
            h2 = h1\<lparr>lastSentPacketNumber := PacketNumber packet\<rparr>;
            h3 = h2\<lparr>packets := packets h2 + 1\<rparr>;
            h4 = h3\<lparr>lastSentTime := now\<rparr>;
            packet1 = packet\<lparr>Frames := stripNonRetransmittableFrames (Frames packet)\<rparr>;
            isRetransmittable = (length (Frames packet1) \<noteq> 0);
            h5 = (if isRetransmittable
                  then (let packet2 = packet1\<lparr>SendTime := now\<rparr>
                        in h4\<lparr>bytesInFlight := bytesInFlight h4 + Length packet2,
                               packetHistory := PushBack (packetHistory h4) packet2,
                               numNonRetransmittablePackets := 0\<rparr>)
                  else h4\<lparr>numNonRetransmittablePackets := numNonRetransmittablePackets h4 + 1\<rparr>);
            h6 = h5\<lparr>congestion :=
                       OnPacketSent I (congestion h5) now (bytesInFlight h5) (PacketNumber packet)
                         (Length packet) isRetransmittable\<rparr>
        in (None, updateLossDetectionAlarm I h6))"

text \<open>The inner loop of \<open>determineNewlyAckedPackets\<close> that advances \<open>ackRangeIndex\<close>.\<close>

function advanceRange :: "AckRange list \<Rightarrow> PacketNumber \<Rightarrow> nat \<Rightarrow> nat" where
  "advanceRange rs pn i =
     (if pn > Last (rs ! (length rs - 1 - i)) \<and> i < length rs - 1
      then advanceRange rs pn (i + 1) else i)"
  by pat_completeness auto
termination
  by (relation "measure (\<lambda>(rs, pn, i). length rs - 1 - i)") auto

declare advanceRange.simps [simp del]

fun determineLoop ::
  "AckFrame \<Rightarrow> nat \<Rightarrow> PacketElement list \<Rightarrow> PacketElement list \<Rightarrow> ackError + PacketElement list" where
  "determineLoop f ackRangeIndex [] ackedPackets = Inr ackedPackets"
| "determineLoop f ackRangeIndex (el # rest) ackedPackets =
     (let packetNumber = PacketNumber (Value el)
      in if packetNumber < ackLowestAcked f then determineLoop f ackRangeIndex rest ackedPackets
         else if packetNumber > ackLargestAcked f then Inr ackedPackets
         else if HasMissingRanges f then
           (let i = advanceRange (AckRanges f) packetNumber ackRangeIndex;
                ackRange = AckRanges f ! (length (AckRanges f) - 1 - i)
            in if packetNumber \<ge> First ackRange
               then (if packetNumber > Last ackRange then Inl ErrBUGWrongPacket
                     else determineLoop f i rest (ackedPackets @ [el]))
               else determineLoop f i rest ackedPackets)
         else determineLoop f ackRangeIndex rest (ackedPackets @ [el]))"

definition determineNewlyAckedPackets ::
  "'c sentPacketHandler \<Rightarrow> AckFrame \<Rightarrow> ackError + PacketElement list" where
  "determineNewlyAckedPackets h ackFrame = determineLoop ackFrame 0 (elems (packetHistory h)) []"

definition determineNewlyAckedPacketsClosePath ::
  "'c sentPacketHandler \<Rightarrow> ClosePathFrame \<Rightarrow> ackError + PacketElement list" where
  "determineNewlyAckedPacketsClosePath h f = determineLoop f 0 (elems (packetHistory h)) []"

fun maybeUpdateRTTLoop ::
  "'c deps \<Rightarrow> 'c \<Rightarrow> PacketNumber \<Rightarrow> Duration \<Rightarrow> Time \<Rightarrow> Time \<Rightarrow> PacketElement list \<Rightarrow> bool \<times> 'c" where
  "maybeUpdateRTTLoop I c largestAcked ackDelay rcvTime now [] = (False, c)"
| "maybeUpdateRTTLoop I c largestAcked ackDelay rcvTime now (el # rest) =
     (let packet = Value el
      in if PacketNumber packet = largestAcked
         then (True, UpdateRTT I c (Sub rcvTime (SendTime packet)) ackDelay now)
         else if PacketNumber packet > largestAcked then (False, c)
         else maybeUpdateRTTLoop I c largestAcked ackDelay rcvTime now rest)"

definition maybeUpdateRTT ::
  "'c deps \<Rightarrow> 'c sentPacketHandler \<Rightarrow> PacketNumber \<Rightarrow> Duration \<Rightarrow> Time \<Rightarrow> Time
     \<Rightarrow> bool \<times> 'c sentPacketHandler" where
  "maybeUpdateRTT I h largestAcked ackDelay rcvTime now =
     (let (r, c) = maybeUpdateRTTLoop I (congestion h) largestAcked ackDelay rcvTime now
                     (elems (packetHistory h))
      in (r, h\<lparr>congestion := c\<rparr>))"

definition hasOutstandingRetransmittablePacket :: "'c deps \<Rightarrow> 'c sentPacketHandler \<Rightarrow> bool" where
  "hasOutstandingRetransmittablePacket I h =
     list_ex (\<lambda>el. IsRetransmittable I (Value el)) (elems (packetHistory h))"

definition skippedPacketsAcked :: "'c sentPacketHandler \<Rightarrow> AckFrame \<Rightarrow> bool" where
  "skippedPacketsAcked h ackFrame = list_ex (\<lambda>p. AcksPacket ackFrame p) (skippedPackets h)"

definition skippedPacketsAckedClosePath :: "'c sentPacketHandler \<Rightarrow> ClosePathFrame \<Rightarrow> bool" where
  "skippedPacketsAckedClosePath h closePathFrame =
     list_ex (\<lambda>p. AcksPacket closePathFrame p) (skippedPackets h)"

fun gcDeleteIndex :: "PacketNumber \<Rightarrow> nat \<Rightarrow> PacketNumber list \<Rightarrow> nat \<Rightarrow> nat" where
  "gcDeleteIndex lioa i [] deleteIndex = deleteIndex"
| "gcDeleteIndex lioa i (p # ps) deleteIndex =
     gcDeleteIndex lioa (i + 1) ps (if p \<le> lioa then i + 1 else deleteIndex)"

definition garbageCollectSkippedPackets :: "'c sentPacketHandler \<Rightarrow> 'c sentPacketHandler" where
  "garbageCollectSkippedPackets h =
     (let lioa = largestInOrderAcked h;
          deleteIndex = gcDeleteIndex lioa 0 (skippedPackets h) 0
      in h\<lparr>skippedPackets := drop deleteIndex (skippedPackets h)\<rparr>)"

text \<open>The first loop of \<open>detectLostPackets\<close>: it walks the history up to
  \<open>LargestAcked\<close>, counts and collects the lost packets and sets \<open>lossTime\<close> once.\<close>

fun detectLoop ::
  "Time \<Rightarrow> Duration \<Rightarrow> 'c sentPacketHandler \<Rightarrow> PacketElement list \<Rightarrow> PacketElement list
     \<Rightarrow> 'c sentPacketHandler \<times> PacketElement list" where
  "detectLoop now delayUntilLost h [] lostPackets = (h, lostPackets)"
| "detectLoop now delayUntilLost h (el # rest) lostPackets =
     (let packet = Value el
      in if PacketNumber packet > LargestAcked h then (h, lostPackets)
         else
           let timeSinceSent = Sub now (SendTime packet)
           in if delayUntilLost <s timeSinceSent
              then detectLoop now delayUntilLost (h\<lparr>losses := losses h + 1\<rparr>) rest
                     (lostPackets @ [el])
              else if IsZero (lossTime h)
                then detectLoop now delayUntilLost
                       (h\<lparr>lossTime := Add now (delayUntilLost - timeSinceSent)\<rparr>) rest lostPackets
              else detectLoop now delayUntilLost h rest lostPackets)"

text \<open>The loop shared by \<open>detectLostPackets\<close> and \<open>SetInflightAsLost\<close> over the
  collected lost packets.\<close>

fun lostLoop ::
  "'c deps \<Rightarrow> 'c sentPacketHandler \<Rightarrow> PacketElement list \<Rightarrow> 'c sentPacketHandler" where
  "lostLoop I h [] = h"
| "lostLoop I h (p # ps) =
     (let h1 = queuePacketForRetransmission h p;
          h2 = h1\<lparr>congestion := OnPacketLost I (congestion h1) (PacketNumber (Value p))
                                    (Length (Value p)) (bytesInFlight h1)\<rparr>
      in lostLoop I h2 ps)"

definition detectLostPackets ::
  "'c deps \<Rightarrow> 'c sentPacketHandler \<Rightarrow> Time \<Rightarrow> 'c sentPacketHandler" where
  "detectLostPackets I h now =
     (let h1 = h\<lparr>lossTime := 0\<rparr>;
          maxRTT = MaxDuration (rttLatestRTT I (congestion h1)) (rttSmoothedRTT I (congestion h1));
          delayUntilLost = lossDelay I maxRTT;
          (h2, lostPackets) = detectLoop now delayUntilLost h1 (elems (packetHistory h1)) []
      in lostLoop I h2 lostPackets)"

fun inflightLoop ::
  "'c sentPacketHandler \<Rightarrow> PacketElement list \<Rightarrow> PacketElement list
     \<Rightarrow> 'c sentPacketHandler \<times> PacketElement list" where
  "inflightLoop h [] lostPackets = (h, lostPackets)"
| "inflightLoop h (el # rest) lostPackets =
     (if PacketNumber (Value el) > LargestAcked h then (h, lostPackets)
      else inflightLoop (h\<lparr>losses := losses h + 1\<rparr>) rest (lostPackets @ [el]))"

definition SetInflightAsLost :: "'c deps \<Rightarrow> 'c sentPacketHandler \<Rightarrow> 'c sentPacketHandler" where
  "SetInflightAsLost I h =
     (let (h1, lostPackets) = inflightLoop h (elems (packetHistory h)) []
      in lostLoop I h1 lostPackets)"

text \<open>The loop of \<open>ReceivedAck\<close> over the newly acked packets; \<open>flag\<close> and
  \<open>sentDelay\<close> are its two local variables.\<close>

fun ackLoop ::
  "'c deps \<Rightarrow> AckFrame \<Rightarrow> Time \<Rightarrow> 'c sentPacketHandler \<Rightarrow> bool \<Rightarrow> Duration \<Rightarrow> PacketElement list
     \<Rightarrow> 'c sentPacketHandler \<times> bool \<times> Duration" where
  "ackLoop I ackFrame rcvTime h flag sentDelay [] = (h, flag, sentDelay)"
| "ackLoop I ackFrame rcvTime h flag sentDelay (p # ps) =
     (let packet = Value p;
          flag1 = (if PacketNumber packet = ackLargestAcked ackFrame then True else flag);
          sentDelay1 =
            (if PacketNumber packet = ackLargestAcked ackFrame
             then (let sd = Sub rcvTime (SendTime packet)
                   in if ackDelayTime ackFrame <s sd then sd - ackDelayTime ackFrame else sd)
             else sentDelay);
          h1 = onPacketAcked h p;
          h2 = h1\<lparr>congestion := OnPacketAcked I (congestion h1) (PacketNumber (Value p))
                                    (Length (Value p)) (bytesInFlight h1)\<rparr>
      in ackLoop I ackFrame rcvTime h2 flag1 sentDelay1 ps)"

text \<open>The block \<open>if len(ackedPackets) > 0 { ... }\<close> of \<open>ReceivedAck\<close>; \<open>None\<close> is a
  panic inside \<open>UpdateBDW\<close>.\<close>

definition processAckedPackets ::
  "'c deps \<Rightarrow> 'c sentPacketHandler \<Rightarrow> AckFrame \<Rightarrow> Time \<Rightarrow> PacketElement list
     \<Rightarrow> 'c sentPacketHandler option" where
  "processAckedPackets I h ackFrame rcvTime ackedPackets =
     (if length ackedPackets > 0 then
        (let preInflight = bytesInFlight h;
             (h1, flag, sentDelay) = ackLoop I ackFrame rcvTime h False 0 ackedPackets;
             changeInflight = preInflight - bytesInFlight h1
         in if flag
            then (case UpdateBDW (bdwStats h1) changeInflight sentDelay of
                    None \<Rightarrow> None
                  | Some b \<Rightarrow> Some (h1\<lparr>bdwStats := b\<rparr>))
            else Some h1)
      else Some h)"

text \<open>\<open>ReceivedAck\<close>. The two clock readings are those of \<open>maybeUpdateRTT\<close> and of
  \<open>detectLostPackets\<close>.\<close>

definition ReceivedAck ::
  "'c deps \<Rightarrow> 'c sentPacketHandler \<Rightarrow> AckFrame \<Rightarrow> PacketNumber \<Rightarrow> Time \<Rightarrow> Time \<Rightarrow> Time
     \<Rightarrow> ackError option \<times> 'c sentPacketHandler" where
  "ReceivedAck I h ackFrame withPacketNumber rcvTime nowRTT nowLoss =
     (if ackLargestAcked ackFrame > lastSentPacketNumber h then (Some errAckForUnsentPacket, h)
      else if withPacketNumber \<le> largestReceivedPacketWithAck h
        then (Some ErrDuplicateOrOutOfOrderAck, h)
      else
        let h1 = h\<lparr>largestReceivedPacketWithAck := withPacketNumber\<rparr>
        in if ackLargestAcked ackFrame \<le> largestInOrderAcked h1 then (None, h1)
           else
             let h2 = h1\<lparr>LargestAcked := ackLargestAcked ackFrame\<rparr>
             in if skippedPacketsAcked h2 ackFrame then (Some ErrAckForSkippedPacket, h2)
                else
                  let (rttUpdated, h3) =
                        maybeUpdateRTT I h2 (ackLargestAcked ackFrame) (ackDelayTime ackFrame)
                          rcvTime nowRTT;
                      h4 = (if rttUpdated
                            then h3\<lparr>congestion := MaybeExitSlowStart I (congestion h3)\<rparr>
                            else h3)
                  in case determineNewlyAckedPackets h4 ackFrame of
                       Inl err \<Rightarrow> (Some err, h4)
                     | Inr ackedPackets \<Rightarrow>
                         (case processAckedPackets I h4 ackFrame rcvTime ackedPackets of
                            None \<Rightarrow> (Some ErrPanic, h4)
                          | Some h5 \<Rightarrow>
                              let h6 = detectLostPackets I h5 nowLoss;
                                  h7 = updateLossDetectionAlarm I h6;
                                  h8 = garbageCollectSkippedPackets h7;
                                  h9 = h8\<lparr>stopWaitingManager :=
                                             swm_ReceivedAck (stopWaitingManager h8) ackFrame\<rparr>
                              in (None, h9)))"

fun closePathAckLoop ::
  "'c deps \<Rightarrow> 'c sentPacketHandler \<Rightarrow> PacketElement list \<Rightarrow> 'c sentPacketHandler" where
  "closePathAckLoop I h [] = h"
| "closePathAckLoop I h (p # ps) =
     (let h1 = onPacketAcked h p;
          h2 = h1\<lparr>congestion := OnPacketAcked I (congestion h1) (PacketNumber (Value p))
                                    (Length (Value p)) (bytesInFlight h1)\<rparr>
      in closePathAckLoop I h2 ps)"

definition ReceivedClosePath ::
  "'c deps \<Rightarrow> 'c sentPacketHandler \<Rightarrow> ClosePathFrame \<Rightarrow> PacketNumber \<Rightarrow> Time
     \<Rightarrow> ackError option \<times> 'c sentPacketHandler" where
  "ReceivedClosePath I h f withPacketNumber rcvTime =
     (if ackLargestAcked f > lastSentPacketNumber h then (Some errAckForUnsentPacket, h)
      else if withPacketNumber \<le> largestReceivedPacketWithAck h
        then (Some ErrDuplicateOrOutOfOrderAck, h)
      else
        let h1 = h\<lparr>largestReceivedPacketWithAck := withPacketNumber\<rparr>
        in if skippedPacketsAckedClosePath h1 f then (Some ErrAckForSkippedPacket, h1)
           else
             case determineNewlyAckedPacketsClosePath h1 f of
               Inl err \<Rightarrow> (Some err, h1)
             | Inr ackedPackets \<Rightarrow>
                 let h2 = closePathAckLoop I h1 ackedPackets;
                     h3 = SetInflightAsLost I h2;
                     h4 = garbageCollectSkippedPackets h3
                 in (None, h4))"

definition retransmitTLP :: "'c sentPacketHandler \<Rightarrow> 'c sentPacketHandler" where
  "retransmitTLP h =
     (case Back (packetHistory h) of
        Some p \<Rightarrow> queuePacketForRetransmission h p
      | None \<Rightarrow> h)"

text \<open>The loop \<open>for h.packetHistory.Len() > 0 { h.queueRTO(h.packetHistory.Front()) }\<close>.\<close>

function retransmitAllLoop :: "'c deps \<Rightarrow> 'c sentPacketHandler \<Rightarrow> 'c sentPacketHandler" where
  "retransmitAllLoop I h =
     (case elems (packetHistory h) of
        [] \<Rightarrow> h
      | f # _ \<Rightarrow> retransmitAllLoop I (queueRTO I h f))"
  by pat_completeness auto
termination
proof (relation "measure (\<lambda>(I, h). length (elems (packetHistory h)))")
  show "wf (measure (\<lambda>(I, h). length (elems (packetHistory h))))"
    by simp
next
  fix I :: "'c deps" and h :: "'c sentPacketHandler" and f :: PacketElement
    and rest :: "PacketElement list"
  assume a: "elems (packetHistory h) = f # rest"
  have "elems (packetHistory (queueRTO I h f)) = filter (\<lambda>x. elemId x \<noteq> elemId f) rest"
    using a by (simp add: queueRTO_def queuePacketForRetransmission_def Remove_def Let_def)
  moreover have "length (filter (\<lambda>x. elemId x \<noteq> elemId f) rest) < Suc (length rest)"
    by (rule le_imp_less_Suc [OF length_filter_le])
  ultimately show "((I, queueRTO I h f), I, h) \<in> measure (\<lambda>(I, h). length (elems (packetHistory h)))"
    using a by simp
qed

declare retransmitAllLoop.simps [simp del]

definition retransmitAllPackets :: "'c deps \<Rightarrow> 'c sentPacketHandler \<Rightarrow> 'c sentPacketHandler" where
  "retransmitAllPackets I h =
     (let h1 = retransmitAllLoop I h
      in h1\<lparr>congestion := OnRetransmissionTimeout I (congestion h1) True\<rparr>)"

definition retransmitOldestPacket :: "'c deps \<Rightarrow> 'c sentPacketHandler \<Rightarrow> 'c sentPacketHandler" where
  "retransmitOldestPacket I h =
     (case Front (packetHistory h) of
        Some p \<Rightarrow> queueRTO I h p
      | None \<Rightarrow> h)"

definition retransmitOldestTwoPackets ::
  "'c deps \<Rightarrow> 'c sentPacketHandler \<Rightarrow> 'c sentPacketHandler" where
  "retransmitOldestTwoPackets I h =
     (let h1 = retransmitOldestPacket I h;
          h2 = retransmitOldestPacket I h1
      in h2\<lparr>congestion := OnRetransmissionTimeout I (congestion h2) True\<rparr>)"

definition OnAlarm :: "'c deps \<Rightarrow> 'c sentPacketHandler \<Rightarrow> Time \<Rightarrow> 'c sentPacketHandler" where
  "OnAlarm I h now =
     (if \<not> hasOutstandingRetransmittablePacket I h then h\<lparr>alarm := 0\<rparr>
      else
        let h1 =
          (if \<not> IsZero (lossTime h) then detectLostPackets I h now
           else if tlpCount h < maxTailLossProbes then
             (let h' = retransmitTLP h in h'\<lparr>tlpCount := tlpCount h' + 1\<rparr>)
           else
             (let potentiallyFailed =
                    (case onRTOCallback h of None \<Rightarrow> False | Some cb \<Rightarrow> cb (lastSentTime h));
                  h' = (if potentiallyFailed then retransmitAllPackets I h
                        else retransmitOldestTwoPackets I h)
              in h'\<lparr>rtoCount := rtoCount h' + 1\<rparr>))
        in updateLossDetectionAlarm I h1)"

definition DequeuePacketForRetransmission ::
  "'c sentPacketHandler \<Rightarrow> Packet option \<times> 'c sentPacketHandler" where
  "DequeuePacketForRetransmission h =
     (case retransmissionQueue h of
        [] \<Rightarrow> (None, h)
      | packet # rest \<Rightarrow>
          (Some packet, h\<lparr>retransmissionQueue := rest, retransmissions := retransmissions h + 1\<rparr>))"

definition SendingAllowed :: "'c deps \<Rightarrow> 'c sentPacketHandler \<Rightarrow> bool" where
  "SendingAllowed I h =
     (let congestionLimited = (bytesInFlight h > GetCongestionWindow I (congestion h));
          maxTrackedLimited =
            (word_of_nat (length (retransmissionQueue h) + Len (packetHistory h))
               \<ge> MaxTrackedSentPackets I);
          haveRetransmissions = (length (retransmissionQueue h) > 0)
      in \<not> maxTrackedLimited \<and> (\<not> congestionLimited \<or> haveRetransmissions))"

text \<open>The calls a path makes on its handler, and a run of them.\<close>

datatype handlerOp =
    OpSentPacket Packet Time
  | OpReceivedAck AckFrame PacketNumber Time Time Time
  | OpReceivedClosePath ClosePathFrame PacketNumber Time
  | OpOnAlarm Time
  | OpDequeuePacketForRetransmission

fun applyOp :: "'c deps \<Rightarrow> 'c sentPacketHandler \<Rightarrow> handlerOp \<Rightarrow> 'c sentPacketHandler" where
  "applyOp I h (OpSentPacket p now) = snd (SentPacket I h p now)"
| "applyOp I h (OpReceivedAck f pn rcv n1 n2) = snd (ReceivedAck I h f pn rcv n1 n2)"
| "applyOp I h (OpReceivedClosePath f pn rcv) = snd (ReceivedClosePath I h f pn rcv)"
| "applyOp I h (OpOnAlarm now) = OnAlarm I h now"
| "applyOp I h OpDequeuePacketForRetransmission = snd (DequeuePacketForRetransmission h)"

definition runOps :: "'c deps \<Rightarrow> 'c sentPacketHandler \<Rightarrow> handlerOp list \<Rightarrow> 'c sentPacketHandler" where
  "runOps I h ops = foldl (applyOp I) h ops"

section \<open>Packet packer (packet_packer.go)\<close>

datatype packError =
    ErrNoAckFrameQueued
  | ErrForwardSecureHandshakeRetransmission
  | ErrHandshakeRetransmissionWithoutStopWaiting
  | ErrPayloadTooLarge
  | ErrPacketTooLarge
  | ErrPeekPopMismatch
  | ErrExternal

record packedPacket =
  number :: PacketNumber
  raw :: "8 word list"
  frames :: "Frame list"
  encryptionLevel :: EncryptionLevel

record packetPacker =
  packerPerspective :: Perspective
  controlFrames :: "Frame list"
  stopWaiting :: "PathID \<Rightarrow> StopWaitingFrame option"
  ackFrame :: "PathID \<Rightarrow> AckFrame option"

text \<open>What one call of the packer obtains from its collaborators: the crypto setup and
  its sealers, the stream framer, the path's packet number generator, the public header
  and the wire encoding of the frames. Every result below holds for any such record.\<close>

record packEnv =
  HasCryptoStreamFrame :: bool
  PopCryptoStreamFrame :: "ByteCount \<Rightarrow> StreamFrame"
  GetSealerLevel :: EncryptionLevel
  GetSealerOverhead :: nat
  CryptoSealerLevel :: EncryptionLevel
  CryptoSealerOverhead :: nat
  GetSealerWithEncryptionLevel :: "EncryptionLevel \<Rightarrow> packError + nat"
  Peek :: PacketNumber
  Pop :: PacketNumber
  HeaderPacketNumberLen :: "8 word"
  HeaderGetLength :: "packError + ByteCount"
  HeaderWrite :: "packError + 8 word list"
  FrameMinLength :: "Frame \<Rightarrow> packError + ByteCount"
  FrameWrite :: "Frame \<Rightarrow> packError + 8 word list"
  Seal :: "8 word list \<Rightarrow> 8 word list \<Rightarrow> nat \<Rightarrow> 8 word list"
  PopStreamFrames :: "ByteCount \<Rightarrow> StreamFrame list"
  PopStreamFramesOfPath :: "ByteCount \<Rightarrow> PathID \<Rightarrow> StreamFrame list"
  PopStreamFramesOfOneStream :: "ByteCount \<Rightarrow> 32 word \<Rightarrow> StreamFrame list"
  PoppedBlockedFrames :: "32 word list"
  MaxPacketSize :: ByteCount
  NonForwardSecurePacketSizeReduction :: ByteCount

record PublicHeader =
  hdrPacketNumber :: PacketNumber
  hdrPacketNumberLen :: "8 word"



definition getPublicHeader :: "packEnv \<Rightarrow> PublicHeader" where
  "getPublicHeader E = \<lparr>hdrPacketNumber = Peek E, hdrPacketNumberLen = HeaderPacketNumberLen E\<rparr>"



fun writeFrames :: "packEnv \<Rightarrow> Frame list \<Rightarrow> packError + 8 word list" where
  "writeFrames E [] = Inr []"
| "writeFrames E (f # fs) =
     (case FrameWrite E f of
        Inl e \<Rightarrow> Inl e
      | Inr b \<Rightarrow> (case writeFrames E fs of Inl e \<Rightarrow> Inl e | Inr bs \<Rightarrow> Inr (b @ bs)))"

definition writeAndSealPacket ::
  "packEnv \<Rightarrow> PublicHeader \<Rightarrow> Frame list \<Rightarrow> nat \<Rightarrow> packError + 8 word list" where
  "writeAndSealPacket E publicHeader payloadFrames overhead =
     (case HeaderWrite E of
        Inl e \<Rightarrow> Inl e
      | Inr hb \<Rightarrow>
          (case writeFrames E payloadFrames of
             Inl e \<Rightarrow> Inl e
           | Inr fb \<Rightarrow>
               if (word_of_nat (length (hb @ fb) + overhead) :: ByteCount) > MaxPacketSize E
               then Inl ErrPacketTooLarge
               else
                 let rawBytes = Seal E hb fb overhead
                 in if Pop E \<noteq> hdrPacketNumber publicHeader then Inl ErrPeekPopMismatch
                    else Inr rawBytes))"

text \<open>The loop of \<open>composeNextPacket\<close> that pops control frames from the tail of
  \<open>controlFrames\<close>; it runs over the reversed list and returns what is left of it.\<close>

fun controlLoop ::
  "packEnv \<Rightarrow> ByteCount \<Rightarrow> Frame list \<Rightarrow> ByteCount \<Rightarrow> Frame list
     \<Rightarrow> packError option \<times> Frame list \<times> ByteCount \<times> Frame list" where
  "controlLoop E maxFrameSize [] payloadLength payloadFrames =
     (None, [], payloadLength, payloadFrames)"
| "controlLoop E maxFrameSize (frame # rest) payloadLength payloadFrames =
     (case FrameMinLength E frame of
        Inl e \<Rightarrow> (Some e, frame # rest, payloadLength, payloadFrames)
      | Inr minLength \<Rightarrow>
          if payloadLength + minLength > maxFrameSize
          then (None, frame # rest, payloadLength, payloadFrames)
          else controlLoop E maxFrameSize rest (payloadLength + minLength)
                 (payloadFrames @ [frame]))"

definition clearLastDataLen :: "StreamFrame list \<Rightarrow> StreamFrame list" where
  "clearLastDataLen fs =
     (if length fs \<noteq> 0 then butlast fs @ [(last fs)\<lparr>DataLenPresent := False\<rparr>] else fs)"

text \<open>\<open>composeNextPacket\<close>, \<open>composeNextPacketOfPath\<close> and
  \<open>composeNextPacketOfStream\<close> have the same body and differ in the call that pops
  the stream frames, which is the argument \<open>popFrames\<close>.\<close>

definition composeWith ::
  "(ByteCount \<Rightarrow> StreamFrame list) \<Rightarrow> packEnv \<Rightarrow> packetPacker \<Rightarrow> ByteCount \<Rightarrow> bool \<Rightarrow> PathID
     \<Rightarrow> (packError + Frame list) \<times> packetPacker" where
  "composeWith popFrames E p maxFrameSize canSendStreamFrames pid =
     (let swPart =
            (case stopWaiting p pid of
               None \<Rightarrow> Inr ([], 0)
             | Some sw \<Rightarrow>
                 (case FrameMinLength E (FStopWaiting sw) of
                    Inl e \<Rightarrow> Inl e
                  | Inr l \<Rightarrow> Inr ([FStopWaiting sw], l)))
      in case swPart of
           Inl e \<Rightarrow> (Inl e, p)
         | Inr (frames1, len1) \<Rightarrow>
             (let ackPart =
                    (case ackFrame p pid of
                       None \<Rightarrow> Inr (frames1, len1)
                     | Some a \<Rightarrow>
                         (case FrameMinLength E (FAck a) of
                            Inl e \<Rightarrow> Inl e
                          | Inr l \<Rightarrow> Inr (frames1 @ [FAck a], len1 + l)))
              in case ackPart of
                   Inl e \<Rightarrow> (Inl e, p)
                 | Inr (frames2, len2) \<Rightarrow>
                     (case controlLoop E maxFrameSize (rev (controlFrames p)) len2 frames2 of
                        (Some e, restRev, len3, frames3) \<Rightarrow>
                          (Inl e, p\<lparr>controlFrames := rev restRev\<rparr>)
                      | (None, restRev, len3, frames3) \<Rightarrow>
                          (let p1 = p\<lparr>controlFrames := rev restRev\<rparr>
                           in if len3 > maxFrameSize then (Inl ErrPayloadTooLarge, p1)
                              else if \<not> canSendStreamFrames then (Inr frames3, p1)
                              else
                                let maxFrameSize2 = maxFrameSize + 2;
                                    fs = clearLastDataLen (popFrames (maxFrameSize2 - len3));
                                    frames4 = frames3 @ map FStream fs;
                                    p2 = p1\<lparr>controlFrames :=
                                               controlFrames p1
                                                 @ map FBlocked (PoppedBlockedFrames E)\<rparr>
                                in (Inr frames4, p2)))))"




definition packCryptoPacket ::
  "packEnv \<Rightarrow> packetPacker \<Rightarrow> (packedPacket option \<times> packError option) \<times> packetPacker" where
  "packCryptoPacket E p =
     (let encLevel = CryptoSealerLevel E;
          publicHeader = getPublicHeader E
      in case HeaderGetLength E of
           Inl e \<Rightarrow> ((None, Some e), p)
         | Inr publicHeaderLength \<Rightarrow>
             (let maxLen = MaxPacketSize E - word_of_nat (CryptoSealerOverhead E)
                             - NonForwardSecurePacketSizeReduction E - publicHeaderLength;
                  fs = [FStream (PopCryptoStreamFrame E maxLen)]
              in case writeAndSealPacket E publicHeader fs (CryptoSealerOverhead E) of
                   Inl e \<Rightarrow> ((None, Some e), p)
                 | Inr rawBytes \<Rightarrow>
                     ((Some \<lparr>number = hdrPacketNumber publicHeader, raw = rawBytes,
                             frames = fs, encryptionLevel = encLevel\<rparr>, None), p)))"








definition isStopWaiting :: "Frame \<Rightarrow> bool" where
  "isStopWaiting f = (case f of FStopWaiting _ \<Rightarrow> True | _ \<Rightarrow> False)"

text \<open>No STOP_WAITING frame in a frame list: \<open>QueueControlFrame\<close> keeps such frames
  out of \<open>controlFrames\<close>.\<close>

definition noStopWaiting :: "Frame list \<Rightarrow> bool" where
  "noStopWaiting fs = (\<not> list_ex isStopWaiting fs)"

section \<open>Accounting of the bytes in flight\<close>

text \<open>The sum of the \<open>Length\<close> fields over a history, the well-formedness of a list
  (element identities are distinct and already allocated), and the two together for a
  handler.\<close>

definition historyBytes :: "PacketList \<Rightarrow> ByteCount" where
  "historyBytes l = sum_list (map (\<lambda>e. Length (Value e)) (elems l))"

definition wellFormed :: "PacketList \<Rightarrow> bool" where
  "wellFormed l = (distinct (map elemId (elems l)) \<and> (\<forall>e \<in> set (elems l). elemId e < nextElem l))"

definition accounted :: "'c sentPacketHandler \<Rightarrow> bool" where
  "accounted h = (wellFormed (packetHistory h) \<and> bytesInFlight h = historyBytes (packetHistory h))"

section \<open>Concrete inputs\<close>

definition clientManager :: pathManager where
  "clientManager =
     \<lparr>perspective = PerspectiveClient, paths = [], openPaths = [], nxtPathID = 0, nbPaths = 0\<rparr>"

definition udp :: "string \<Rightarrow> UDPAddr" where
  "udp s = \<lparr>IP = s, Port = 4242\<rparr>"

definition clientAfterSetup :: pathManager where
  "clientAfterSetup = pm_setup clientManager (udp ''10.0.0.1'') (udp ''10.0.0.2'')"

text \<open>A congestion controller and RTT estimator without state that report no RTT sample
  yet, and the constants 2000 and 10 of package \<open>protocol\<close>.\<close>

definition testDeps :: "unit deps" where
  "testDeps =
     \<lparr>OnPacketSent = (\<lambda>c _ _ _ _ _. c), OnPacketAcked = (\<lambda>c _ _ _. c),
      OnPacketLost = (\<lambda>c _ _ _. c), MaybeExitSlowStart = (\<lambda>c. c),
      OnRetransmissionTimeout = (\<lambda>c _. c), RetransmissionDelay = (\<lambda>_. 0),
      SmoothedRTT = (\<lambda>_. 0), GetCongestionWindow = (\<lambda>_. 46720),
      UpdateRTT = (\<lambda>c _ _ _. c), rttSmoothedRTT = (\<lambda>_. 0), rttLatestRTT = (\<lambda>_. 0),
      IsRetransmittable = (\<lambda>p. Frames p \<noteq> []), lossDelay = (\<lambda>d. d + DurationDiv d 8),
      MaxTrackedSentPackets = 2000, MaxTrackedSkippedPackets = 10\<rparr>"

definition tightDeps :: "unit deps" where
  "tightDeps = testDeps\<lparr>MaxTrackedSentPackets := 3\<rparr>"

definition freshHandler :: "unit sentPacketHandler" where
  "freshHandler = NewSentPacketHandler 0 (NewBDWStats 0) () None"

definition dataPacket :: "PacketNumber \<Rightarrow> Packet" where
  "dataPacket n =
     \<lparr>PacketNumber = n,
      Frames = [FStream \<lparr>StreamID = 5, Offset = 0, FinBit = False, DataLenPresent = True,
                         Data = []\<rparr>],
      Length = 500, EncryptionLevel = EncryptionForwardSecure, SendTime = 0\<rparr>"

definition sentThree :: "unit sentPacketHandler" where
  "sentThree = runOps testDeps freshHandler
     [OpSentPacket (dataPacket 1) 10, OpSentPacket (dataPacket 2) 20,
      OpSentPacket (dataPacket 3) 30]"

definition ackOneToThree :: AckFrame where
  "ackOneToThree =
     \<lparr>ackPathID = 0, ackLargestAcked = 3, ackLowestAcked = 1, ackDelayTime = 0, AckRanges = []\<rparr>"

definition ackedThree :: "unit sentPacketHandler" where
  "ackedThree = snd (ReceivedAck testDeps sentThree ackOneToThree 1 100 100 100)"

definition sentOneFive :: "unit sentPacketHandler" where
  "sentOneFive = runOps testDeps freshHandler
     [OpSentPacket (dataPacket 1) 10, OpSentPacket (dataPacket 5) 20]"

definition ackFiveAndOne :: "PacketNumber \<Rightarrow> AckFrame" where
  "ackFiveAndOne lowest =
     \<lparr>ackPathID = 0, ackLargestAcked = 5, ackLowestAcked = lowest, ackDelayTime = 0,
      AckRanges = [\<lparr>First = 5, Last = 5\<rparr>, \<lparr>First = 1, Last = 1\<rparr>]\<rparr>"

definition ackThreeToFiveAndOne :: AckFrame where
  "ackThreeToFiveAndOne =
     \<lparr>ackPathID = 0, ackLargestAcked = 5, ackLowestAcked = 1, ackDelayTime = 0,
      AckRanges = [\<lparr>First = 3, Last = 5\<rparr>, \<lparr>First = 1, Last = 1\<rparr>]\<rparr>"

definition staleAck :: AckFrame where
  "staleAck =
     \<lparr>ackPathID = 0, ackLargestAcked = 2, ackLowestAcked = 1, ackDelayTime = 0, AckRanges = []\<rparr>"

definition unsentAck :: AckFrame where
  "unsentAck =
     \<lparr>ackPathID = 0, ackLargestAcked = 9, ackLowestAcked = 1, ackDelayTime = 0, AckRanges = []\<rparr>"

definition closePathThree :: ClosePathFrame where
  "closePathThree =
     \<lparr>ackPathID = 0, ackLargestAcked = 3, ackLowestAcked = 3, ackDelayTime = 0, AckRanges = []\<rparr>"

definition ackOnlyThree :: AckFrame where
  "ackOnlyThree =
     \<lparr>ackPathID = 0, ackLargestAcked = 3, ackLowestAcked = 3, ackDelayTime = 0, AckRanges = []\<rparr>"

definition ackedOnlyThree :: "unit sentPacketHandler" where
  "ackedOnlyThree = snd (ReceivedAck testDeps sentThree ackOnlyThree 1 10 10 10)"








section \<open>Bandwidth estimator: results\<close>

text \<open>
  C9, as the code has it. Each \<open>UpdateBDW\<close> call returns the estimator unchanged,
  whatever the sample: the whole update (ring slot, index, maximum) sits behind the flag
  \<open>disable\<close>, which is always set. \<open>GetBandwidth\<close> returns the stored estimate
  divided by \<open>2^20\<close>.
\<close>

theorem UpdateBDW_disabled:
  "UpdateBDW b sentDelta sentDelay = Some b \<and> GetBandwidth b = bandwidth b div 2 ^ 20"
  by (simp add: UpdateBDW_def GetBandwidth_def)

text \<open>
  C9 as stated fails: on an estimator created with 20 Mbit/s, a sample of 1000 bytes over one
  second (8000 bit/s) is not stored in the ring, which stays all zero, and the reported
  bandwidth stays 20, which is not the maximum over the ring.
\<close>

theorem UpdateBDW_sample_not_stored:
  "UpdateBDW (NewBDWStats 20971520) 1000 Second = Some (NewBDWStats 20971520)
   \<and> (1000 * Second div Second * BytesPerSecond :: Bandwidth) = 8000
   \<and> 8000 \<notin> set (compareWindow (NewBDWStats 20971520))
   \<and> GetBandwidth (NewBDWStats 20971520) = 20
   \<and> Max (set (compareWindow (NewBDWStats 20971520))) = 0"
  by (simp add: UpdateBDW_def NewBDWStats_def GetBandwidth_def Second_def BytesPerSecond_def)

section \<open>Path manager: results\<close>

lemma word8_mod2: "((k::8 word) mod 2 = 0) = even k"
  by (simp add: even_iff_mod_2_eq_zero)

lemma createPath_perspective: "perspective (snd (createPath sp pm a b)) = perspective pm"
  by (simp add: createPath_def Let_def split: prod.splits)

lemma createPath_inv:
  assumes "\<forall>k. map_of (paths pm) k \<noteq> None \<longrightarrow>
             k = InitialPathID \<or> (odd k \<longleftrightarrow> perspective pm = PerspectiveClient)"
    and "odd (nxtPathID pm) \<longleftrightarrow> perspective pm = PerspectiveClient"
  shows "(\<forall>k. map_of (paths (snd (createPath sp pm a b))) k \<noteq> None \<longrightarrow>
             k = InitialPathID \<or> (odd k \<longleftrightarrow> perspective pm = PerspectiveClient))
     \<and> (odd (nxtPathID (snd (createPath sp pm a b))) \<longleftrightarrow> perspective pm = PerspectiveClient)"
  using assms by (auto simp: createPath_def Let_def update_conv' split: prod.splits if_splits)

lemma createPathsRun_perspective: "perspective (createPathsRun sp pm pairs) = perspective pm"
proof (induction pairs arbitrary: pm)
  case Nil
  then show ?case by simp
next
  case (Cons x xs)
  obtain a b where x: "x = (a, b)" by (cases x)
  obtain e pm' where c: "createPath sp pm a b = (e, pm')" by (cases "createPath sp pm a b")
  have "perspective pm' = perspective pm"
    using createPath_perspective[of sp pm a b] c by simp
  then show ?case using Cons.IH[of pm'] x c by (cases e) simp_all
qed

lemma createPathsRun_inv:
  assumes "\<forall>k. map_of (paths pm) k \<noteq> None \<longrightarrow>
             k = InitialPathID \<or> (odd k \<longleftrightarrow> perspective pm = PerspectiveClient)"
    and "odd (nxtPathID pm) \<longleftrightarrow> perspective pm = PerspectiveClient"
  shows "(\<forall>k. map_of (paths (createPathsRun sp pm pairs)) k \<noteq> None \<longrightarrow>
             k = InitialPathID \<or> (odd k \<longleftrightarrow> perspective pm = PerspectiveClient))
     \<and> (odd (nxtPathID (createPathsRun sp pm pairs)) \<longleftrightarrow> perspective pm = PerspectiveClient)"
  using assms
proof (induction pairs arbitrary: pm)
  case Nil
  then show ?case by simp
next
  case (Cons x xs)
  obtain a b where x: "x = (a, b)" by (cases x)
  obtain e pm' where c: "createPath sp pm a b = (e, pm')" by (cases "createPath sp pm a b")
  have p: "perspective pm' = perspective pm"
    using createPath_perspective[of sp pm a b] c by simp
  have i: "(\<forall>k. map_of (paths pm') k \<noteq> None \<longrightarrow>
              k = InitialPathID \<or> (odd k \<longleftrightarrow> perspective pm' = PerspectiveClient))
     \<and> (odd (nxtPathID pm') \<longleftrightarrow> perspective pm' = PerspectiveClient)"
    using createPath_inv[OF Cons.prems, of sp a b] c p by simp
  show ?case
  proof (cases e)
    case None
    then show ?thesis using Cons.IH[of pm'] i p x c by simp
  next
    case (Some err)
    then show ?thesis using i p x c by simp
  qed
qed

lemma setup_inv:
  assumes "paths pm = []"
  shows "(\<forall>k. map_of (paths (pm_setup pm l r)) k \<noteq> None \<longrightarrow>
            k = InitialPathID \<or> (odd k \<longleftrightarrow> perspective (pm_setup pm l r) = PerspectiveClient))
    \<and> (odd (nxtPathID (pm_setup pm l r)) \<longleftrightarrow> perspective (pm_setup pm l r) = PerspectiveClient)
    \<and> perspective (pm_setup pm l r) = perspective pm"
  using assms by (auto simp: pm_setup_def Let_def update_conv' InitialPathID_def)

lemma createPath_step:
  "snd (createPath sp pm a b) = pm \<or>
     (nxtPathID (snd (createPath sp pm a b)) = nxtPathID pm + 2 \<and>
      map_option pathID (map_of (paths (snd (createPath sp pm a b))) (nxtPathID pm))
        = Some (nxtPathID pm))"
  by (auto simp: createPath_def Let_def update_conv' split: prod.splits)

lemma createPathFromRemote_ok:
  "(\<exists>p. fst (createPathFromRemote pm pid a b) = Inr p) \<longleftrightarrow>
     (map_of (paths pm) pid = None \<and> (odd pid \<longleftrightarrow> perspective pm = PerspectiveServer))"
  by (cases "perspective pm")
     (auto simp: createPathFromRemote_def Let_def word8_mod2 split: prod.splits)

text \<open>
  C8, as the code has it. Starting from a session without paths, \<open>setup\<close> inserts
  the initial path under PathID 0 and sets \<open>nxtPathID\<close> to 1 on a client and to 2 on a
  server. After any run of \<open>createPath\<close> calls, every path other than the initial one has an
  odd PathID on a client and an even one on a server, and \<open>nxtPathID\<close> keeps that parity;
  a \<open>createPath\<close> call that creates a path gives it the PathID \<open>nxtPathID\<close> and advances
  \<open>nxtPathID\<close> by 2. \<open>createPathFromRemote\<close> succeeds exactly when the PathID does not
  exist yet and is even on a client (the peer is the server), odd on a server.
\<close>

theorem path_ids_follow_code_parity:
  assumes "paths pm = []"
  shows "(let pm0 = pm_setup pm l r; pm1 = createPathsRun sp pm0 pairs in
     map_option pathID (map_of (paths pm0) InitialPathID) = Some InitialPathID
   \<and> nxtPathID pm0 = (if perspective pm = PerspectiveClient then 1 else 2)
   \<and> (\<forall>k. map_of (paths pm1) k \<noteq> None \<longrightarrow>
         k = InitialPathID \<or> (odd k \<longleftrightarrow> perspective pm = PerspectiveClient))
   \<and> (odd (nxtPathID pm1) \<longleftrightarrow> perspective pm = PerspectiveClient)
   \<and> (\<forall>a b. snd (createPath sp pm1 a b) = pm1 \<or>
         (nxtPathID (snd (createPath sp pm1 a b)) = nxtPathID pm1 + 2 \<and>
          map_option pathID (map_of (paths (snd (createPath sp pm1 a b))) (nxtPathID pm1))
            = Some (nxtPathID pm1)))
   \<and> (\<forall>pid a b. (\<exists>p. fst (createPathFromRemote pm1 pid a b) = Inr p) \<longleftrightarrow>
         (map_of (paths pm1) pid = None \<and> (odd pid \<longleftrightarrow> perspective pm = PerspectiveServer))))"
proof -
  let ?pm0 = "pm_setup pm l r"
  let ?pm1 = "createPathsRun sp ?pm0 pairs"
  have s: "(\<forall>k. map_of (paths ?pm0) k \<noteq> None \<longrightarrow>
              k = InitialPathID \<or> (odd k \<longleftrightarrow> perspective ?pm0 = PerspectiveClient))"
    "(odd (nxtPathID ?pm0) \<longleftrightarrow> perspective ?pm0 = PerspectiveClient)"
    "perspective ?pm0 = perspective pm"
    using setup_inv[OF assms, of l r] by blast+
  have r: "(\<forall>k. map_of (paths ?pm1) k \<noteq> None \<longrightarrow>
              k = InitialPathID \<or> (odd k \<longleftrightarrow> perspective pm = PerspectiveClient))"
     "(odd (nxtPathID ?pm1) \<longleftrightarrow> perspective pm = PerspectiveClient)"
    using createPathsRun_inv[OF s(1) s(2), of sp pairs] s(3) by simp_all
  have p1: "perspective ?pm1 = perspective pm"
    using createPathsRun_perspective[of sp ?pm0 pairs] s(3) by simp
  have a: "map_option pathID (map_of (paths ?pm0) InitialPathID) = Some InitialPathID"
    by (simp add: pm_setup_def Let_def update_conv')
  have b: "nxtPathID ?pm0 = (if perspective pm = PerspectiveClient then 1 else 2)"
    by (simp add: pm_setup_def Let_def)
  have c: "\<forall>a b. snd (createPath sp ?pm1 a b) = ?pm1 \<or>
         (nxtPathID (snd (createPath sp ?pm1 a b)) = nxtPathID ?pm1 + 2 \<and>
          map_option pathID (map_of (paths (snd (createPath sp ?pm1 a b))) (nxtPathID ?pm1))
            = Some (nxtPathID ?pm1))"
    using createPath_step by blast
  have d: "\<forall>pid a b. (\<exists>p. fst (createPathFromRemote ?pm1 pid a b) = Inr p) \<longleftrightarrow>
         (map_of (paths ?pm1) pid = None \<and> (odd pid \<longleftrightarrow> perspective pm = PerspectiveServer))"
    using createPathFromRemote_ok[of ?pm1] p1 by simp
  show ?thesis unfolding Let_def using a b r c d by blast
qed

text \<open>The theorem at a client without paths that creates one path: the session has no
  paths, the counter starts at 1, and a remote PathID 2 is accepted afterwards.\<close>

theorem path_ids_follow_code_parity_witness:
  "paths clientManager = []
   \<and> nxtPathID clientAfterSetup = 1
   \<and> odd (nxtPathID (createPathsRun (\<lambda>_. False) clientAfterSetup
                        [(udp ''10.0.1.1'', udp ''10.0.0.2'')]))
   \<and> (\<exists>p. fst (createPathFromRemote
                 (createPathsRun (\<lambda>_. False) clientAfterSetup
                    [(udp ''10.0.1.1'', udp ''10.0.0.2'')])
                 2 (udp ''10.0.1.1'') (udp ''10.0.0.2'')) = Inr p)"
proof -
  have h: "paths clientManager = []"
    by (simp add: clientManager_def)
  have m: "map_of (paths (createPathsRun (\<lambda>_. False) clientAfterSetup
                    [(udp ''10.0.1.1'', udp ''10.0.0.2'')])) 2 = None"
    by (simp add: clientAfterSetup_def clientManager_def pm_setup_def createPath_def udp_def
          Let_def statsForIP_def InitialPathID_def)
  have p: "perspective clientManager = PerspectiveClient"
    by (simp add: clientManager_def)
  show ?thesis
    using h m p
      path_ids_follow_code_parity[OF h, of "udp ''10.0.0.1''" "udp ''10.0.0.2''"
        "\<lambda>_. False" "[(udp ''10.0.1.1'', udp ''10.0.0.2'')]"]
    unfolding Let_def clientAfterSetup_def by simp
qed

text \<open>
  C8 as stated fails: the path a client creates locally gets the odd PathID 1 (not an even
  one), and a client rejects a received odd PathID 3 and accepts the even PathID 2.
\<close>

theorem client_path_id_is_odd:
  "nxtPathID clientAfterSetup = 1
   \<and> map_option pathID
        (map_of (paths (snd (createPath (\<lambda>_. False) clientAfterSetup
                               (udp ''10.0.1.1'') (udp ''10.0.0.2'')))) 1) = Some 1
   \<and> odd (1 :: PathID)
   \<and> fst (createPathFromRemote clientAfterSetup 3 (udp ''10.0.1.1'') (udp ''10.0.0.2''))
       = Inl ErrOddPathID
   \<and> isl (fst (createPathFromRemote clientAfterSetup 2 (udp ''10.0.1.1'') (udp ''10.0.0.2'')))
       = False"
  by (simp add: clientAfterSetup_def clientManager_def pm_setup_def createPath_def
        createPathFromRemote_def udp_def Let_def statsForIP_def InitialPathID_def)

section \<open>Sent-packet handler: accounting\<close>

lemma id_notin: "x \<in> set xs \<Longrightarrow> elemId e \<notin> elemId ` set xs \<Longrightarrow> elemId x \<noteq> elemId e"
  by (metis image_eqI)

lemma sum_remove_by_id:
  "distinct (map elemId xs) \<Longrightarrow> e \<in> set xs \<Longrightarrow>
     sum_list (map (\<lambda>x. Length (Value x)) (filter (\<lambda>x. elemId x \<noteq> elemId e) xs))
       = sum_list (map (\<lambda>x. Length (Value x)) xs) - Length (Value e)"
proof (induction xs)
  case Nil then show ?case by simp
next
  case (Cons a xs)
  show ?case
  proof (cases "a = e")
    case True
    then have "\<forall>x \<in> set xs. elemId x \<noteq> elemId e" using Cons.prems(1) by (auto dest: id_notin)
    then have "filter (\<lambda>x. elemId x \<noteq> elemId e) xs = xs" by (simp add: filter_id_conv)
    then show ?thesis using True by simp
  next
    case False
    then have "e \<in> set xs" using Cons.prems(2) by simp
    moreover have "elemId a \<noteq> elemId e" using Cons.prems(1) \<open>e \<in> set xs\<close> by auto
    ultimately show ?thesis using Cons by simp
  qed
qed

lemma wellFormed_Remove: "wellFormed l \<Longrightarrow> wellFormed (Remove l e)"
  by (auto simp: wellFormed_def Remove_def distinct_map_filter)

lemma historyBytes_Remove:
  "wellFormed l \<Longrightarrow> e \<in> set (elems l) \<Longrightarrow> historyBytes (Remove l e) = historyBytes l - Length (Value e)"
  by (simp add: wellFormed_def Remove_def historyBytes_def sum_remove_by_id)

lemma accounted_onPacketAcked:
  "accounted h \<Longrightarrow> e \<in> set (elems (packetHistory h)) \<Longrightarrow> accounted (onPacketAcked h e)"
  by (simp add: accounted_def onPacketAcked_def wellFormed_Remove historyBytes_Remove)

lemma accounted_queuePacketForRetransmission:
  "accounted h \<Longrightarrow> e \<in> set (elems (packetHistory h)) \<Longrightarrow> accounted (queuePacketForRetransmission h e)"
  by (simp add: accounted_def queuePacketForRetransmission_def Let_def wellFormed_Remove historyBytes_Remove)

lemma accounted_congestion_update [simp]: "accounted (h\<lparr>congestion := c\<rparr>) = accounted h"
  by (simp add: accounted_def)
lemma accounted_losses_update [simp]: "accounted (h\<lparr>losses := c\<rparr>) = accounted h"
  by (simp add: accounted_def)
lemma accounted_lossTime_update [simp]: "accounted (h\<lparr>lossTime := c\<rparr>) = accounted h"
  by (simp add: accounted_def)
lemma accounted_alarm_update [simp]: "accounted (h\<lparr>alarm := c\<rparr>) = accounted h"
  by (simp add: accounted_def)
lemma accounted_tlpCount_update [simp]: "accounted (h\<lparr>tlpCount := c\<rparr>) = accounted h"
  by (simp add: accounted_def)
lemma accounted_rtoCount_update [simp]: "accounted (h\<lparr>rtoCount := c\<rparr>) = accounted h"
  by (simp add: accounted_def)
lemma accounted_bdwStats_update [simp]: "accounted (h\<lparr>bdwStats := c\<rparr>) = accounted h"
  by (simp add: accounted_def)
lemma accounted_skippedPackets_update [simp]: "accounted (h\<lparr>skippedPackets := c\<rparr>) = accounted h"
  by (simp add: accounted_def)
lemma accounted_stopWaitingManager_update [simp]: "accounted (h\<lparr>stopWaitingManager := c\<rparr>) = accounted h"
  by (simp add: accounted_def)
lemma accounted_largestReceived_update [simp]: "accounted (h\<lparr>largestReceivedPacketWithAck := c\<rparr>) = accounted h"
  by (simp add: accounted_def)
lemma accounted_LargestAcked_update [simp]: "accounted (h\<lparr>LargestAcked := c\<rparr>) = accounted h"
  by (simp add: accounted_def)

lemma elems_queuePacketForRetransmission:
  "elems (packetHistory (queuePacketForRetransmission h e)) = filter (\<lambda>x. elemId x \<noteq> elemId e) (elems (packetHistory h))"
  by (simp add: queuePacketForRetransmission_def Let_def Remove_def)

lemma elems_onPacketAcked:
  "elems (packetHistory (onPacketAcked h e)) = filter (\<lambda>x. elemId x \<noteq> elemId e) (elems (packetHistory h))"
  by (simp add: onPacketAcked_def Remove_def)

lemma accounted_lostLoop:
  "accounted h \<Longrightarrow> set ps \<subseteq> set (elems (packetHistory h)) \<Longrightarrow> distinct (map elemId ps)
     \<Longrightarrow> accounted (lostLoop I h ps)"
proof (induction ps arbitrary: h)
  case Nil then show ?case by simp
next
  case (Cons p ps)
  let ?h1 = "queuePacketForRetransmission h p"
  let ?h2 = "?h1\<lparr>congestion := OnPacketLost I (congestion ?h1) (PacketNumber (Value p)) (Length (Value p)) (bytesInFlight ?h1)\<rparr>"
  have a: "accounted ?h2" using Cons.prems accounted_queuePacketForRetransmission[of h p] by simp
  have s: "set ps \<subseteq> set (elems (packetHistory ?h2))"
    using Cons.prems(2,3) by (auto simp: elems_queuePacketForRetransmission dest: id_notin)
  have d: "distinct (map elemId ps)" using Cons.prems(3) by simp
  show ?case using Cons.IH[OF a s d] by (simp add: Let_def)
qed

lemma accounted_closePathAckLoop:
  "accounted h \<Longrightarrow> set ps \<subseteq> set (elems (packetHistory h)) \<Longrightarrow> distinct (map elemId ps)
     \<Longrightarrow> accounted (closePathAckLoop I h ps)"
proof (induction ps arbitrary: h)
  case Nil then show ?case by simp
next
  case (Cons p ps)
  let ?h1 = "onPacketAcked h p"
  let ?h2 = "?h1\<lparr>congestion := OnPacketAcked I (congestion ?h1) (PacketNumber (Value p)) (Length (Value p)) (bytesInFlight ?h1)\<rparr>"
  have a: "accounted ?h2" using Cons.prems accounted_onPacketAcked[of h p] by simp
  have s: "set ps \<subseteq> set (elems (packetHistory ?h2))"
    using Cons.prems(2,3) by (auto simp: elems_onPacketAcked dest: id_notin)
  have d: "distinct (map elemId ps)" using Cons.prems(3) by simp
  show ?case using Cons.IH[OF a s d] by (simp add: Let_def)
qed

lemma accounted_ackLoop:
  "accounted h \<Longrightarrow> set ps \<subseteq> set (elems (packetHistory h)) \<Longrightarrow> distinct (map elemId ps)
     \<Longrightarrow> accounted (fst (ackLoop I f rcv h flag sd ps))"
proof (induction ps arbitrary: h flag sd)
  case Nil then show ?case by simp
next
  case (Cons p ps)
  let ?h1 = "onPacketAcked h p"
  let ?h2 = "?h1\<lparr>congestion := OnPacketAcked I (congestion ?h1) (PacketNumber (Value p)) (Length (Value p)) (bytesInFlight ?h1)\<rparr>"
  have a: "accounted ?h2" using Cons.prems accounted_onPacketAcked[of h p] by simp
  have s: "set ps \<subseteq> set (elems (packetHistory ?h2))"
    using Cons.prems(2,3) by (auto simp: elems_onPacketAcked dest: id_notin)
  have d: "distinct (map elemId ps)" using Cons.prems(3) by simp
  show ?case using Cons.IH[OF a s d] by (simp add: Let_def)
qed

lemma determineLoop_sub:
  "determineLoop f i xs acc = Inr r \<Longrightarrow>
     \<exists>ys. r = acc @ ys \<and> set ys \<subseteq> set xs \<and> (distinct (map elemId xs) \<longrightarrow> distinct (map elemId ys))"
proof (induction xs arbitrary: i acc)
  case Nil then show ?case by simp
next
  case (Cons e rest)
  have step: "\<And>j. determineLoop f j rest (acc @ [e]) = Inr r \<Longrightarrow> ?case"
  proof -
    fix j assume "determineLoop f j rest (acc @ [e]) = Inr r"
    from Cons.IH[OF this] obtain ys where ys: "r = (acc @ [e]) @ ys" "set ys \<subseteq> set rest"
      "distinct (map elemId rest) \<longrightarrow> distinct (map elemId ys)" by blast
    show ?case
      by (rule exI[of _ "e # ys"]) (use ys in auto)
  qed
  have skip: "\<And>j. determineLoop f j rest acc = Inr r \<Longrightarrow> ?case"
  proof -
    fix j assume "determineLoop f j rest acc = Inr r"
    from Cons.IH[OF this] obtain ys where ys: "r = acc @ ys" "set ys \<subseteq> set rest"
      "distinct (map elemId rest) \<longrightarrow> distinct (map elemId ys)" by blast
    show ?case
      by (rule exI[of _ "ys"]) (use ys in auto)
  qed
  have stop: "acc = r \<Longrightarrow> ?case" by auto
  show ?case using Cons.prems step skip stop
    by (auto simp: Let_def split: if_splits)
qed


lemma accounted_cong:
  "packetHistory h' = packetHistory h \<Longrightarrow> bytesInFlight h' = bytesInFlight h \<Longrightarrow> accounted h' = accounted h"
  by (simp add: accounted_def)

lemma detectLoop_frame:
  "packetHistory (fst (detectLoop now d h xs acc)) = packetHistory h
   \<and> bytesInFlight (fst (detectLoop now d h xs acc)) = bytesInFlight h"
  by (induction xs arbitrary: h acc) (simp_all add: Let_def)

lemma detectLoop_set:
  "set (snd (detectLoop now d (h :: 'c sentPacketHandler) xs acc)) \<subseteq> set acc \<union> set xs"
proof (induction xs arbitrary: h acc)
  case Nil then show ?case by simp
next
  case (Cons e rest)
  have 1: "\<And>h' :: 'c sentPacketHandler. set (snd (detectLoop now d h' rest (acc @ [e]))) \<subseteq> set acc \<union> set (e # rest)"
    using Cons.IH[of _ "acc @ [e]"] by auto
  have 2: "\<And>h' :: 'c sentPacketHandler. set (snd (detectLoop now d h' rest acc)) \<subseteq> set acc \<union> set (e # rest)"
    using Cons.IH[of _ acc] by auto
  show ?case using 1 2 by (auto simp: Let_def)
qed

lemma detectLoop_distinct:
  "distinct (map elemId (acc @ xs))
     \<Longrightarrow> distinct (map elemId (snd (detectLoop now d (h :: 'c sentPacketHandler) xs acc)))"
proof (induction xs arbitrary: h acc)
  case Nil then show ?case by simp
next
  case (Cons e rest)
  have 1: "\<And>h' :: 'c sentPacketHandler. distinct (map elemId (snd (detectLoop now d h' rest (acc @ [e]))))"
    using Cons.IH[of "acc @ [e]"] Cons.prems by simp
  have 2: "\<And>h' :: 'c sentPacketHandler. distinct (map elemId (snd (detectLoop now d h' rest acc)))"
    using Cons.IH[of acc] Cons.prems by simp
  show ?case using 1 2 Cons.prems by (simp add: Let_def)
qed

lemma inflightLoop_eq:
  "inflightLoop h xs acc =
     (h\<lparr>losses := losses h + word_of_nat (length (takeWhile (\<lambda>e. PacketNumber (Value e) \<le> LargestAcked h) xs))\<rparr>,
      acc @ takeWhile (\<lambda>e. PacketNumber (Value e) \<le> LargestAcked h) xs)"
proof (induction xs arbitrary: h acc)
  case Nil then show ?case by simp
next
  case (Cons e rest)
  show ?case
  proof (cases "PacketNumber (Value e) > LargestAcked h")
    case True then show ?thesis by (simp add: not_le)
  next
    case False
    then show ?thesis using Cons.IH[of "h\<lparr>losses := losses h + 1\<rparr>" "acc @ [e]"]
      by (simp add: not_less add.assoc add.commute)
  qed
qed

lemma accounted_detectLostPackets: "accounted h \<Longrightarrow> accounted (detectLostPackets I h now)"
proof -
  assume a: "accounted h"
  let ?h1 = "h\<lparr>lossTime := 0\<rparr>"
  let ?d = "lossDelay I (MaxDuration (rttLatestRTT I (congestion ?h1)) (rttSmoothedRTT I (congestion ?h1)))"
  let ?r = "detectLoop now ?d ?h1 (elems (packetHistory ?h1)) []"
  have f: "packetHistory (fst ?r) = packetHistory h" "bytesInFlight (fst ?r) = bytesInFlight h"
    using detectLoop_frame[of now ?d ?h1 "elems (packetHistory ?h1)" "[]"] by simp_all
  then have a2: "accounted (fst ?r)" using a accounted_cong[of "fst ?r" h] by simp
  have ys: "set (snd ?r) \<subseteq> set (elems (packetHistory h))"
    using detectLoop_set[of now ?d ?h1 "elems (packetHistory ?h1)" "[]"] by simp
  have d: "distinct (map elemId (snd ?r))"
    using detectLoop_distinct[of "[]" "elems (packetHistory ?h1)" now ?d ?h1] a
    by (simp add: accounted_def wellFormed_def)
  have "accounted (lostLoop I (fst ?r) (snd ?r))"
    using accounted_lostLoop[OF a2, of "snd ?r" I] ys d f by simp
  then show ?thesis by (simp add: detectLostPackets_def Let_def case_prod_beta)
qed

lemma accounted_SetInflightAsLost: "accounted h \<Longrightarrow> accounted (SetInflightAsLost I h)"
proof -
  assume a: "accounted h"
  let ?t = "takeWhile (\<lambda>e. PacketNumber (Value e) \<le> LargestAcked h) (elems (packetHistory h))"
  let ?h1 = "h\<lparr>losses := losses h + word_of_nat (length ?t)\<rparr>"
  have a1: "accounted ?h1" using a by simp
  have s: "set ?t \<subseteq> set (elems (packetHistory ?h1))" by (auto dest: set_takeWhileD)
  have d: "distinct (map elemId ?t)"
    using a by (simp add: accounted_def wellFormed_def distinct_map)
       (metis inj_on_subset set_takeWhileD subsetI)
  show ?thesis using accounted_lostLoop[OF a1 s d, of I]
    by (simp add: SetInflightAsLost_def inflightLoop_eq)
qed

lemma updateLossDetectionAlarm_eq:
  "updateLossDetectionAlarm I h = h\<lparr>alarm := alarm (updateLossDetectionAlarm I h)\<rparr>"
  by (simp add: updateLossDetectionAlarm_def)

lemma accounted_updateLossDetectionAlarm [simp]:
  "accounted (updateLossDetectionAlarm I h) = accounted h"
  using updateLossDetectionAlarm_eq[of I h] accounted_alarm_update by metis


lemma updateLossDetectionAlarm_fields [simp]:
  "packetHistory (updateLossDetectionAlarm I h) = packetHistory h"
  "bytesInFlight (updateLossDetectionAlarm I h) = bytesInFlight h"
  "retransmissionQueue (updateLossDetectionAlarm I h) = retransmissionQueue h"
  "LargestAcked (updateLossDetectionAlarm I h) = LargestAcked h"
  "lastSentPacketNumber (updateLossDetectionAlarm I h) = lastSentPacketNumber h"
  "largestReceivedPacketWithAck (updateLossDetectionAlarm I h) = largestReceivedPacketWithAck h"
  "skippedPackets (updateLossDetectionAlarm I h) = skippedPackets h"
  by (simp_all add: updateLossDetectionAlarm_def)

lemma wellFormed_PushBack: "wellFormed l \<Longrightarrow> wellFormed (PushBack l v)"
  by (auto simp: wellFormed_def PushBack_def less_Suc_eq)

lemma historyBytes_PushBack: "historyBytes (PushBack l v) = historyBytes l + Length v"
  by (simp add: historyBytes_def PushBack_def)

lemma accounted_SentPacket: "accounted h \<Longrightarrow> accounted (snd (SentPacket I h p now))"
  by (simp add: SentPacket_def Let_def accounted_def wellFormed_PushBack historyBytes_PushBack)

lemma accounted_maybeUpdateRTT:
  "accounted (snd (maybeUpdateRTT I h la d rcv now)) = accounted h"
  by (simp add: maybeUpdateRTT_def case_prod_beta)

lemma elems_maybeUpdateRTT:
  "packetHistory (snd (maybeUpdateRTT I h la d rcv now)) = packetHistory h"
  by (simp add: maybeUpdateRTT_def case_prod_beta)

lemma accounted_garbageCollectSkippedPackets [simp]:
  "accounted (garbageCollectSkippedPackets h) = accounted h"
  by (simp add: garbageCollectSkippedPackets_def Let_def)

lemma accounted_processAckedPackets:
  assumes "accounted h" and "set ps \<subseteq> set (elems (packetHistory h))" and "distinct (map elemId ps)"
    and "processAckedPackets I h f rcv ps = Some h'"
  shows "accounted h'"
proof (cases "length ps > 0")
  case False
  then show ?thesis using assms by (simp add: processAckedPackets_def)
next
  case True
  let ?r = "ackLoop I f rcv h False 0 ps"
  have a: "accounted (fst ?r)" using accounted_ackLoop[OF assms(1-3)] .
  show ?thesis using assms(4) True a
    by (auto simp: processAckedPackets_def Let_def case_prod_beta UpdateBDW_def split: if_splits)
qed

lemma determineNewly_sub:
  assumes "determineNewlyAckedPackets h f = Inr ps" and "accounted h"
  shows "set ps \<subseteq> set (elems (packetHistory h)) \<and> distinct (map elemId ps)"
  using determineLoop_sub[of f 0 "elems (packetHistory h)" "[]" ps] assms
  by (auto simp: determineNewlyAckedPackets_def accounted_def wellFormed_def)

lemma determineNewlyClosePath_sub:
  assumes "determineNewlyAckedPacketsClosePath h f = Inr ps" and "accounted h"
  shows "set ps \<subseteq> set (elems (packetHistory h)) \<and> distinct (map elemId ps)"
  using determineLoop_sub[of f 0 "elems (packetHistory h)" "[]" ps] assms
  by (auto simp: determineNewlyAckedPacketsClosePath_def accounted_def wellFormed_def)

lemma accounted_ReceivedAck:
  assumes "accounted h"
  shows "accounted (snd (ReceivedAck I h f pn rcv n1 n2))"
proof -
  let ?h1 = "h\<lparr>largestReceivedPacketWithAck := pn\<rparr>"
  let ?h2 = "?h1\<lparr>LargestAcked := ackLargestAcked f\<rparr>"
  let ?m = "maybeUpdateRTT I ?h2 (ackLargestAcked f) (ackDelayTime f) rcv n1"
  let ?h3 = "snd ?m"
  let ?h4 = "if fst ?m then ?h3\<lparr>congestion := MaybeExitSlowStart I (congestion ?h3)\<rparr> else ?h3"
  have a4: "accounted ?h4" using assms by (simp add: accounted_maybeUpdateRTT)
  have fin: "\<And>h5. accounted h5 \<Longrightarrow>
      accounted ((garbageCollectSkippedPackets (updateLossDetectionAlarm I (detectLostPackets I h5 n2)))
         \<lparr>stopWaitingManager := x\<rparr>)" for x
    by (simp add: accounted_detectLostPackets)
  show ?thesis
  proof (cases "determineNewlyAckedPackets ?h4 f")
    case (Inl e)
    then show ?thesis using assms a4
      by (simp add: ReceivedAck_def Let_def case_prod_beta)
  next
    case (Inr ps)
    have sub: "set ps \<subseteq> set (elems (packetHistory ?h4))" "distinct (map elemId ps)"
      using determineNewly_sub[OF Inr a4] by simp_all
    show ?thesis
    proof (cases "processAckedPackets I ?h4 f rcv ps")
      case None
      then show ?thesis using assms a4 Inr
        by (simp add: ReceivedAck_def Let_def case_prod_beta)
    next
      case (Some h5)
      have "accounted h5" using accounted_processAckedPackets[OF a4 sub Some] .
      then show ?thesis using assms a4 Inr Some fin
        by (simp add: ReceivedAck_def Let_def case_prod_beta)
    qed
  qed
qed

lemma accounted_ReceivedClosePath:
  assumes "accounted h"
  shows "accounted (snd (ReceivedClosePath I h f pn rcv))"
proof -
  let ?h1 = "h\<lparr>largestReceivedPacketWithAck := pn\<rparr>"
  have a1: "accounted ?h1" using assms by simp
  show ?thesis
  proof (cases "determineNewlyAckedPacketsClosePath ?h1 f")
    case (Inl e)
    then show ?thesis using assms by (simp add: ReceivedClosePath_def Let_def)
  next
    case (Inr ps)
    have sub: "set ps \<subseteq> set (elems (packetHistory ?h1))" "distinct (map elemId ps)"
      using determineNewlyClosePath_sub[OF Inr a1] by simp_all
    have "accounted (closePathAckLoop I ?h1 ps)"
      using accounted_closePathAckLoop[OF a1 sub] .
    then have "accounted (garbageCollectSkippedPackets (SetInflightAsLost I (closePathAckLoop I ?h1 ps)))"
      by (simp add: accounted_SetInflightAsLost)
    then show ?thesis using assms Inr by (simp add: ReceivedClosePath_def Let_def)
  qed
qed

lemma accounted_queueRTO:
  "accounted h \<Longrightarrow> e \<in> set (elems (packetHistory h)) \<Longrightarrow> accounted (queueRTO I h e)"
  by (simp add: queueRTO_def Let_def accounted_queuePacketForRetransmission)

lemma accounted_retransmitTLP: "accounted h \<Longrightarrow> accounted (retransmitTLP h)"
  by (auto simp: retransmitTLP_def Back_def accounted_queuePacketForRetransmission split: option.splits if_splits)

lemma accounted_retransmitOldestPacket: "accounted h \<Longrightarrow> accounted (retransmitOldestPacket I h)"
  by (auto simp: retransmitOldestPacket_def Front_def accounted_queueRTO split: option.splits list.splits)

lemma accounted_retransmitAllLoop: "accounted h \<Longrightarrow> accounted (retransmitAllLoop I h)"
proof (induction I h rule: retransmitAllLoop.induct)
  case (1 I h)
  show ?case
  proof (cases "elems (packetHistory h)")
    case Nil
    then show ?thesis using "1.prems" by (simp add: retransmitAllLoop.simps)
  next
    case (Cons f rest)
    have "accounted (queueRTO I h f)" using accounted_queueRTO[OF "1.prems"] Cons by simp
    then have "accounted (retransmitAllLoop I (queueRTO I h f))" using "1.IH"[OF Cons] by simp
    then show ?thesis using Cons by (simp add: retransmitAllLoop.simps[of I h])
  qed
qed

lemma accounted_OnAlarm: "accounted h \<Longrightarrow> accounted (OnAlarm I h now)"
  by (simp add: OnAlarm_def Let_def accounted_detectLostPackets accounted_retransmitTLP
        retransmitAllPackets_def retransmitOldestTwoPackets_def accounted_retransmitAllLoop
        accounted_retransmitOldestPacket)

lemma accounted_retransmissionQueue_update [simp]: "accounted (h\<lparr>retransmissionQueue := c\<rparr>) = accounted h"
  by (simp add: accounted_def)
lemma accounted_retransmissions_update [simp]: "accounted (h\<lparr>retransmissions := c\<rparr>) = accounted h"
  by (simp add: accounted_def)

lemma accounted_Dequeue: "accounted h \<Longrightarrow> accounted (snd (DequeuePacketForRetransmission h))"
  by (simp add: DequeuePacketForRetransmission_def split: list.splits)

lemma accounted_applyOp: "accounted h \<Longrightarrow> accounted (applyOp I h op)"
  by (cases op) (simp_all add: accounted_SentPacket accounted_ReceivedAck accounted_ReceivedClosePath
      accounted_OnAlarm accounted_Dequeue)

lemma accounted_runOps: "accounted h \<Longrightarrow> accounted (runOps I h ops)"
  unfolding runOps_def by (induction ops arbitrary: h) (simp_all add: accounted_applyOp)

lemma accounted_New: "accounted (NewSentPacketHandler pid bdw c cb)"
  by (simp add: accounted_def NewSentPacketHandler_def NewPacketList_def wellFormed_def historyBytes_def)

text \<open>
  C1. For a handler created by \<open>NewSentPacketHandler\<close> and after every sequence of
  \<open>SentPacket\<close>, \<open>ReceivedAck\<close>, \<open>ReceivedClosePath\<close>, \<open>OnAlarm\<close> and
  \<open>DequeuePacketForRetransmission\<close> calls (whatever they return), \<open>bytesInFlight\<close> equals
  the sum of the \<open>Length\<close> fields of the packets in the history, in the 64-bit arithmetic
  of \<open>ByteCount\<close>. Each of the two removals, by ack (\<open>onPacketAcked\<close>) and by queueing for
  retransmission (\<open>queuePacketForRetransmission\<close>), subtracts the \<open>Length\<close> of the removed
  packet and leaves the element out of the history, so that it cannot be subtracted again.
\<close>

theorem bytesInFlight_is_history_sum:
  "bytesInFlight (runOps I (NewSentPacketHandler pid bdw c cb) ops)
     = sum_list (map (\<lambda>e. Length (Value e))
         (elems (packetHistory (runOps I (NewSentPacketHandler pid bdw c cb) ops))))
   \<and> bytesInFlight (onPacketAcked h e) = bytesInFlight h - Length (Value e)
   \<and> e \<notin> set (elems (packetHistory (onPacketAcked h e)))
   \<and> bytesInFlight (queuePacketForRetransmission h e) = bytesInFlight h - Length (Value e)
   \<and> e \<notin> set (elems (packetHistory (queuePacketForRetransmission h e)))"
proof -
  have "accounted (runOps I (NewSentPacketHandler pid bdw c cb) ops)"
    using accounted_runOps[OF accounted_New] .
  then show ?thesis
    by (simp add: accounted_def historyBytes_def onPacketAcked_def queuePacketForRetransmission_def
          Remove_def Let_def)
qed


section \<open>Sent-packet handler: errors of SentPacket and ReceivedAck\<close>



text \<open>
  C7. \<open>SentPacket\<close> fails with \<open>errPacketNumberNotIncreasing\<close> exactly when the packet
  number is not above \<open>lastSentPacketNumber\<close>; it fails with
  \<open>ErrTooManyTrackedSentPackets\<close> exactly when the packet number increases and the number of
  packets in the history and in the retransmission queue, plus one for the new packet,
  exceeds \<open>MaxTrackedSentPackets\<close>; and whenever it fails the handler is returned unchanged.
\<close>

theorem SentPacket_failures:
  "(fst (SentPacket I h p now) = Some errPacketNumberNotIncreasing
      \<longleftrightarrow> PacketNumber p \<le> lastSentPacketNumber h)
   \<and> (fst (SentPacket I h p now) = Some ErrTooManyTrackedSentPackets
      \<longleftrightarrow> lastSentPacketNumber h < PacketNumber p
          \<and> MaxTrackedSentPackets I
               < word_of_nat (length (retransmissionQueue h) + Len (packetHistory h) + 1))
   \<and> (fst (SentPacket I h p now) \<noteq> None \<longrightarrow> snd (SentPacket I h p now) = h)"
  by (auto simp: SentPacket_def Let_def)

text \<open>
  Both failures on the handler that has sent packets 1, 2 and 3: sending packet 2 again,
  and sending packet 4 under a ceiling of 3 tracked packets.
\<close>

theorem SentPacket_failures_witness:
  "fst (SentPacket testDeps sentThree (dataPacket 2) 40) = Some errPacketNumberNotIncreasing
   \<and> snd (SentPacket testDeps sentThree (dataPacket 2) 40) = sentThree
   \<and> fst (SentPacket tightDeps sentThree (dataPacket 4) 40) = Some ErrTooManyTrackedSentPackets
   \<and> snd (SentPacket tightDeps sentThree (dataPacket 4) 40) = sentThree"
proof -
  have a: "PacketNumber (dataPacket 2) \<le> lastSentPacketNumber sentThree"
    by code_simp
  have b: "lastSentPacketNumber sentThree < PacketNumber (dataPacket 4)
          \<and> MaxTrackedSentPackets tightDeps
               < word_of_nat (length (retransmissionQueue sentThree) + Len (packetHistory sentThree) + 1)"
    by code_simp
  show ?thesis
    using a b SentPacket_failures[of testDeps sentThree "dataPacket 2" 40]
      SentPacket_failures[of tightDeps sentThree "dataPacket 4" 40]
    by simp
qed


text \<open>No call on the handler lowers \<open>largestReceivedPacketWithAck\<close>.\<close>

lemma watermark_lostLoop: "largestReceivedPacketWithAck (lostLoop I h ps) = largestReceivedPacketWithAck h"
  by (induction ps arbitrary: h) (simp_all add: Let_def queuePacketForRetransmission_def)

lemma watermark_closePathAckLoop: "largestReceivedPacketWithAck (closePathAckLoop I h ps) = largestReceivedPacketWithAck h"
  by (induction ps arbitrary: h) (simp_all add: Let_def onPacketAcked_def)

lemma watermark_ackLoop: "largestReceivedPacketWithAck (fst (ackLoop I f rcv h flag sd ps)) = largestReceivedPacketWithAck h"
  by (induction ps arbitrary: h flag sd) (simp_all add: Let_def onPacketAcked_def)

lemma watermark_detectLoop: "largestReceivedPacketWithAck (fst (detectLoop now d h xs acc)) = largestReceivedPacketWithAck h"
  by (induction xs arbitrary: h acc) (simp_all add: Let_def)

lemma watermark_detectLostPackets: "largestReceivedPacketWithAck (detectLostPackets I h now) = largestReceivedPacketWithAck h"
  using watermark_detectLoop[of now _ "h\<lparr>lossTime := 0\<rparr>" "elems (packetHistory h)" "[]"]
  by (simp add: detectLostPackets_def Let_def case_prod_beta watermark_lostLoop)

lemma watermark_SetInflightAsLost: "largestReceivedPacketWithAck (SetInflightAsLost I h) = largestReceivedPacketWithAck h"
  by (simp add: SetInflightAsLost_def inflightLoop_eq watermark_lostLoop)

lemma watermark_garbageCollect: "largestReceivedPacketWithAck (garbageCollectSkippedPackets h) = largestReceivedPacketWithAck h"
  by (simp add: garbageCollectSkippedPackets_def Let_def)

lemma watermark_processAckedPackets:
  "processAckedPackets I h f rcv ps = Some h' \<Longrightarrow> largestReceivedPacketWithAck h' = largestReceivedPacketWithAck h"
  using watermark_ackLoop[of I f rcv h False 0 ps]
  by (auto simp: processAckedPackets_def Let_def case_prod_beta UpdateBDW_def split: if_splits)

lemma watermark_maybeUpdateRTT: "largestReceivedPacketWithAck (snd (maybeUpdateRTT I h la d rcv now)) = largestReceivedPacketWithAck h"
  by (simp add: maybeUpdateRTT_def case_prod_beta)

lemma watermark_SentPacket: "largestReceivedPacketWithAck (snd (SentPacket I h p now)) = largestReceivedPacketWithAck h"
  by (simp add: SentPacket_def Let_def)

lemma watermark_ReceivedAck: "largestReceivedPacketWithAck h \<le> largestReceivedPacketWithAck (snd (ReceivedAck I h f pn rcv n1 n2))"
proof (cases "lastSentPacketNumber h < ackLargestAcked f \<or> pn \<le> largestReceivedPacketWithAck h")
  case True
  then show ?thesis by (auto simp: ReceivedAck_def)
next
  case False
  then have le: "largestReceivedPacketWithAck h \<le> pn" by auto
  let ?h1 = "h\<lparr>largestReceivedPacketWithAck := pn\<rparr>"
  let ?h2 = "?h1\<lparr>LargestAcked := ackLargestAcked f\<rparr>"
  let ?m = "maybeUpdateRTT I ?h2 (ackLargestAcked f) (ackDelayTime f) rcv n1"
  let ?h4 = "if fst ?m then (snd ?m)\<lparr>congestion := MaybeExitSlowStart I (congestion (snd ?m))\<rparr> else snd ?m"
  have w4: "largestReceivedPacketWithAck ?h4 = pn" by (simp add: watermark_maybeUpdateRTT)
  show ?thesis
  proof (cases "ackLargestAcked f \<le> largestInOrderAcked ?h1")
    case True
    then show ?thesis using False le by (simp add: ReceivedAck_def Let_def)
  next
    case stale: False
    show ?thesis
    proof (cases "skippedPacketsAcked ?h2 f")
      case True
      then show ?thesis using False le stale by (simp add: ReceivedAck_def Let_def)
    next
      case skip: False
      show ?thesis
      proof (cases "determineNewlyAckedPackets ?h4 f")
        case (Inl e)
        then show ?thesis using False le stale skip w4
          by (simp add: ReceivedAck_def Let_def case_prod_beta)
      next
        case (Inr ps)
        show ?thesis
        proof (cases "processAckedPackets I ?h4 f rcv ps")
          case None
          then show ?thesis using False le stale skip w4 Inr
            by (simp add: ReceivedAck_def Let_def case_prod_beta)
        next
          case (Some h5)
          have "largestReceivedPacketWithAck h5 = pn" using watermark_processAckedPackets[OF Some] w4 by simp
          then show ?thesis using False le stale skip Inr Some
            by (simp add: ReceivedAck_def Let_def case_prod_beta watermark_detectLostPackets
                watermark_garbageCollect)
        qed
      qed
    qed
  qed
qed

lemma watermark_ReceivedClosePath: "largestReceivedPacketWithAck h \<le> largestReceivedPacketWithAck (snd (ReceivedClosePath I h f pn rcv))"
proof (cases "lastSentPacketNumber h < ackLargestAcked f \<or> pn \<le> largestReceivedPacketWithAck h")
  case True
  then show ?thesis by (auto simp: ReceivedClosePath_def)
next
  case False
  then have le: "largestReceivedPacketWithAck h \<le> pn" by auto
  let ?h1 = "h\<lparr>largestReceivedPacketWithAck := pn\<rparr>"
  show ?thesis
  proof (cases "skippedPacketsAckedClosePath ?h1 f")
    case True
    then show ?thesis using False le by (simp add: ReceivedClosePath_def Let_def)
  next
    case skip: False
    show ?thesis
    proof (cases "determineNewlyAckedPacketsClosePath ?h1 f")
      case (Inl e)
      then show ?thesis using False le skip by (simp add: ReceivedClosePath_def Let_def)
    next
      case (Inr ps)
      then show ?thesis using False le skip
        by (simp add: ReceivedClosePath_def Let_def watermark_garbageCollect watermark_SetInflightAsLost
            watermark_closePathAckLoop)
    qed
  qed
qed

lemma watermark_queueRTO: "largestReceivedPacketWithAck (queueRTO I h e) = largestReceivedPacketWithAck h"
  by (simp add: queueRTO_def queuePacketForRetransmission_def Let_def)

lemma watermark_retransmitAllLoop: "largestReceivedPacketWithAck (retransmitAllLoop I h) = largestReceivedPacketWithAck h"
proof (induction I h rule: retransmitAllLoop.induct)
  case (1 I h)
  show ?case
  proof (cases "elems (packetHistory h)")
    case Nil
    then show ?thesis by (simp add: retransmitAllLoop.simps)
  next
    case (Cons f rest)
    then show ?thesis using "1.IH"[OF Cons] by (simp add: retransmitAllLoop.simps[of I h] watermark_queueRTO)
  qed
qed

lemma watermark_retransmitOldestPacket: "largestReceivedPacketWithAck (retransmitOldestPacket I h) = largestReceivedPacketWithAck h"
  by (simp add: retransmitOldestPacket_def watermark_queueRTO split: option.splits)

lemma watermark_OnAlarm: "largestReceivedPacketWithAck (OnAlarm I h now) = largestReceivedPacketWithAck h"
  by (simp add: OnAlarm_def Let_def watermark_detectLostPackets retransmitTLP_def
      queuePacketForRetransmission_def retransmitAllPackets_def retransmitOldestTwoPackets_def
      watermark_retransmitAllLoop watermark_retransmitOldestPacket split: option.splits)

lemma watermark_Dequeue: "largestReceivedPacketWithAck (snd (DequeuePacketForRetransmission h)) = largestReceivedPacketWithAck h"
  by (simp add: DequeuePacketForRetransmission_def split: list.splits)

lemma watermark_applyOp: "largestReceivedPacketWithAck h \<le> largestReceivedPacketWithAck (applyOp I h op)"
  by (cases op) (simp_all add: watermark_SentPacket watermark_ReceivedAck watermark_ReceivedClosePath watermark_OnAlarm watermark_Dequeue)

lemma watermark_runOps: "largestReceivedPacketWithAck h \<le> largestReceivedPacketWithAck (runOps I h ops)"
  unfolding runOps_def
proof (induction ops arbitrary: h)
  case Nil then show ?case by simp
next
  case (Cons op ops)
  show ?case using watermark_applyOp[of h I op] Cons.IH[of "applyOp I h op"] by simp
qed

text \<open>
  C10, as the code has it. A stale ACK (one that passes the unsent and duplicate checks and
  has \<open>LargestAcked \<le> largestInOrderAcked\<close>) returns no error and changes the handler
  only in \<open>largestReceivedPacketWithAck\<close>, which becomes the carrying packet number. After
  any further calls on the handler, a \<open>ReceivedAck\<close> whose carrying packet number is not
  above that value fails and leaves the handler as it is: with
  \<open>ErrDuplicateOrOutOfOrderAck\<close> when its \<open>LargestAcked\<close> is at most the
  \<open>lastSentPacketNumber\<close> of that moment, and with \<open>errAckForUnsentPacket\<close>, which is
  checked first, otherwise.
\<close>

theorem stale_ack_advances_watermark:
  assumes "ackLargestAcked f \<le> lastSentPacketNumber h"
    and "largestReceivedPacketWithAck h < pn"
    and "ackLargestAcked f \<le> largestInOrderAcked h"
    and "pn2 \<le> pn"
  shows "ReceivedAck I h f pn rcv n1 n2 = (None, h\<lparr>largestReceivedPacketWithAck := pn\<rparr>)
   \<and> (let later = runOps I (h\<lparr>largestReceivedPacketWithAck := pn\<rparr>) ops
      in ReceivedAck I later f2 pn2 rcv2 m1 m2
           = (Some (if lastSentPacketNumber later < ackLargestAcked f2 then errAckForUnsentPacket
                    else ErrDuplicateOrOutOfOrderAck), later))"
proof -
  let ?h1 = "h\<lparr>largestReceivedPacketWithAck := pn\<rparr>"
  let ?later = "runOps I ?h1 ops"
  have 1: "\<not> lastSentPacketNumber h < ackLargestAcked f" using assms(1) by simp
  have 2: "\<not> pn \<le> largestReceivedPacketWithAck h" using assms(2) by simp
  have 3: "largestInOrderAcked ?h1 = largestInOrderAcked h"
    by (simp add: largestInOrderAcked_def split: option.splits)
  have first: "ReceivedAck I h f pn rcv n1 n2 = (None, ?h1)"
    using 1 2 3 assms(3) by (simp add: ReceivedAck_def Let_def)
  have "pn \<le> largestReceivedPacketWithAck ?later" using watermark_runOps[of ?h1 I ops] by simp
  then have "pn2 \<le> largestReceivedPacketWithAck ?later" using assms(4) by simp
  then have second: "ReceivedAck I ?later f2 pn2 rcv2 m1 m2
       = (Some (if lastSentPacketNumber ?later < ackLargestAcked f2 then errAckForUnsentPacket
                else ErrDuplicateOrOutOfOrderAck), ?later)"
    by (simp add: ReceivedAck_def Let_def)
  show ?thesis using first second by (simp add: Let_def)
qed

text \<open>
  On the handler whose packets 1 to 3 are acked: the stale ACK for packet 2 carried in
  packet 7 returns no error, and after packet 4 has been sent the ACK carried in packet 5
  is a duplicate.
\<close>

theorem stale_ack_advances_watermark_witness:
  "ReceivedAck testDeps ackedThree staleAck 7 200 200 200
     = (None, ackedThree\<lparr>largestReceivedPacketWithAck := 7\<rparr>)
   \<and> fst (ReceivedAck testDeps
            (runOps testDeps (ackedThree\<lparr>largestReceivedPacketWithAck := 7\<rparr>)
               [OpSentPacket (dataPacket 4) 250])
            ackOneToThree 5 300 300 300)
     = Some ErrDuplicateOrOutOfOrderAck"
proof -
  have a: "ackLargestAcked staleAck \<le> lastSentPacketNumber ackedThree" by code_simp
  have b: "largestReceivedPacketWithAck ackedThree < 7" by code_simp
  have c: "ackLargestAcked staleAck \<le> largestInOrderAcked ackedThree" by code_simp
  have d: "(5 :: PacketNumber) \<le> 7" by simp
  have e: "\<not> lastSentPacketNumber (runOps testDeps (ackedThree\<lparr>largestReceivedPacketWithAck := 7\<rparr>)
               [OpSentPacket (dataPacket 4) 250]) < ackLargestAcked ackOneToThree" by code_simp
  show ?thesis
    using stale_ack_advances_watermark[OF a b c d, of testDeps 200 200 200
        "[OpSentPacket (dataPacket 4) 250]" ackOneToThree 300 300 300] e
    by (simp add: Let_def)
qed

text \<open>
  C10 as stated fails for a later ACK that acknowledges an unsent packet: after the stale
  ACK carried in packet 7, an ACK with \<open>LargestAcked = 9\<close> (only 3 packets were sent)
  carried in packet 5 fails with \<open>errAckForUnsentPacket\<close>, not with
  \<open>ErrDuplicateOrOutOfOrderAck\<close>.
\<close>

theorem later_ack_for_unsent_packet:
  "fst (ReceivedAck testDeps ackedThree staleAck 7 200 200 200) = None
   \<and> largestReceivedPacketWithAck (snd (ReceivedAck testDeps ackedThree staleAck 7 200 200 200)) = 7
   \<and> fst (ReceivedAck testDeps (snd (ReceivedAck testDeps ackedThree staleAck 7 200 200 200))
            unsentAck 5 300 300 300) = Some errAckForUnsentPacket"
  by code_simp


text \<open>
  C5, as the code has it. When the alarm is re-armed with a packet in the history, no
  \<open>lossTime\<close> and the TLP branch not applicable, the alarm is
  \<open>lastSentTime + max(RTO, minRetransmissionTime)\<close>, where \<open>RTO\<close> is
  \<open>max(d, 200 ms) << rtoCount\<close> clamped at 60 s and \<open>d\<close> is
  \<open>congestion.RetransmissionDelay\<close>, replaced by the default of 500 ms when it is 0.
  The shift and the comparisons are those of the signed 64-bit \<open>Duration\<close>.
\<close>

theorem rto_alarm:
  assumes "Len (packetHistory h) \<noteq> 0"
    and "IsZero (lossTime h)"
    and "rttSmoothedRTT I (congestion h) = 0 \<or> \<not> tlpCount h < maxTailLossProbes"
  shows "alarm (updateLossDetectionAlarm I h)
     = Add (lastSentTime h) (MaxDuration (computeRTOTimeout I h) minRetransmissionTime)
   \<and> computeRTOTimeout I h
     = MinDuration
         (push_bit (unat (rtoCount h))
            (MaxDuration
               (if RetransmissionDelay I (congestion h) = 0 then defaultRTOTimeout
                else RetransmissionDelay I (congestion h))
               minRTOTimeout))
         maxRTOTimeout"
  using assms by (auto simp: updateLossDetectionAlarm_def computeRTOTimeout_def Let_def)

text \<open>
  After three packets sent at times 10, 20 and 30 with no RTT sample, the alarm is
  \<open>30 + 500 ms\<close>.
\<close>

theorem rto_alarm_witness:
  "Len (packetHistory sentThree) \<noteq> 0 \<and> IsZero (lossTime sentThree)
   \<and> rttSmoothedRTT testDeps (congestion sentThree) = 0
   \<and> alarm (updateLossDetectionAlarm testDeps sentThree) = 30 + 500000000"
proof -
  have a: "Len (packetHistory sentThree) \<noteq> 0" by code_simp
  have b: "IsZero (lossTime sentThree)" by code_simp
  have c: "rttSmoothedRTT testDeps (congestion sentThree) = 0" by code_simp
  have c': "rttSmoothedRTT testDeps (congestion sentThree) = 0 \<or> \<not> tlpCount sentThree < maxTailLossProbes"
    using c by simp
  have d: "Add (lastSentTime sentThree) (MaxDuration (computeRTOTimeout testDeps sentThree) minRetransmissionTime)
      = 30 + 500000000" by code_simp
  show ?thesis using a b c d rto_alarm[OF a b c', of] by simp
qed

text \<open>
  C5 as stated fails when \<open>RetransmissionDelay\<close> is 0: the alarm is \<open>30 + 500 ms\<close>, while
  the formula of the claim, \<open>max(0, 200 ms) << 0\<close> clamped and compared with
  \<open>minRetransmissionTime\<close>, gives \<open>30 + 200 ms\<close>.
\<close>

theorem rto_uses_default_timeout:
  "Len (packetHistory sentThree) \<noteq> 0 \<and> IsZero (lossTime sentThree)
   \<and> rttSmoothedRTT testDeps (congestion sentThree) = 0
   \<and> RetransmissionDelay testDeps (congestion sentThree) = 0
   \<and> rtoCount sentThree = 0
   \<and> lastSentTime sentThree = 30
   \<and> alarm (updateLossDetectionAlarm testDeps sentThree) = 30 + 500000000
   \<and> alarm (updateLossDetectionAlarm testDeps sentThree)
        \<noteq> Add (lastSentTime sentThree)
             (MaxDuration
                (MinDuration
                   (push_bit (unat (rtoCount sentThree))
                      (MaxDuration (RetransmissionDelay testDeps (congestion sentThree))
                         (200 * Millisecond)))
                   (60 * Second))
                minRetransmissionTime)"
  by code_simp




text \<open>
  C3, general part. A \<open>ReceivedAck\<close> call that passes the unsent, duplicate and stale
  checks returns \<open>ErrAckForSkippedPacket\<close> whenever the frame covers one of the skipped
  packet numbers the handler has recorded.
\<close>

theorem ack_for_skipped_packet:
  assumes "ackLargestAcked f \<le> lastSentPacketNumber h"
    and "largestReceivedPacketWithAck h < pn"
    and "largestInOrderAcked h < ackLargestAcked f"
    and "\<exists>p \<in> set (skippedPackets h). AcksPacket f p"
  shows "fst (ReceivedAck I h f pn rcv n1 n2) = Some ErrAckForSkippedPacket"
proof -
  let ?h1 = "h\<lparr>largestReceivedPacketWithAck := pn\<rparr>"
  let ?h2 = "?h1\<lparr>LargestAcked := ackLargestAcked f\<rparr>"
  have 1: "\<not> lastSentPacketNumber h < ackLargestAcked f" using assms(1) by simp
  have 2: "\<not> pn \<le> largestReceivedPacketWithAck h" using assms(2) by simp
  have 3: "largestInOrderAcked ?h1 = largestInOrderAcked h"
    by (simp add: largestInOrderAcked_def split: option.splits)
  have 4: "\<not> ackLargestAcked f \<le> largestInOrderAcked ?h1" using assms(3) 3 by simp
  have 5: "skippedPacketsAcked ?h2 f"
    using assms(4) by (simp add: skippedPacketsAcked_def list_ex_iff)
  show ?thesis using 1 2 4 5 by (simp add: ReceivedAck_def Let_def)
qed

text \<open>
  \<open>SentPacket(1)\<close> then \<open>SentPacket(5)\<close> records the skipped numbers 2, 3 and 4, and an
  ACK with \<open>LargestAcked = 5\<close> and the ranges \<open>[{3,5},{1,1}]\<close>, which cover 3 and 4, returns
  \<open>ErrAckForSkippedPacket\<close>.
\<close>

theorem ack_for_skipped_packet_witness:
  "skippedPackets sentOneFive = [2, 3, 4]
   \<and> AcksPacket ackThreeToFiveAndOne 3
   \<and> fst (ReceivedAck testDeps sentOneFive ackThreeToFiveAndOne 1 100 100 100)
       = Some ErrAckForSkippedPacket"
proof -
  have s: "skippedPackets sentOneFive = [2, 3, 4]" by code_simp
  have a: "ackLargestAcked ackThreeToFiveAndOne \<le> lastSentPacketNumber sentOneFive" by code_simp
  have b: "largestReceivedPacketWithAck sentOneFive < 1" by code_simp
  have c: "largestInOrderAcked sentOneFive < ackLargestAcked ackThreeToFiveAndOne" by code_simp
  have k: "AcksPacket ackThreeToFiveAndOne 3" by code_simp
  have d: "\<exists>p \<in> set (skippedPackets sentOneFive). AcksPacket ackThreeToFiveAndOne p"
    using s k by simp
  show ?thesis
    using s k ack_for_skipped_packet[OF a b c d, of testDeps 100 100 100] by simp
qed

text \<open>
  The example of C3 as stated fails: the ranges \<open>[{5,5},{1,1}]\<close> cover none of the skipped
  numbers 2, 3 and 4, and the call returns no error (with \<open>LowestAcked\<close> 1 as well as with
  the zero value 0), acking packets 1 and 5.
\<close>

theorem ranges_five_and_one_cover_no_skipped_packet:
  "skippedPackets sentOneFive = [2, 3, 4]
   \<and> \<not> AcksPacket (ackFiveAndOne 1) 2 \<and> \<not> AcksPacket (ackFiveAndOne 1) 3
   \<and> \<not> AcksPacket (ackFiveAndOne 1) 4
   \<and> fst (ReceivedAck testDeps sentOneFive (ackFiveAndOne 1) 1 100 100 100) = None
   \<and> fst (ReceivedAck testDeps sentOneFive (ackFiveAndOne 0) 1 100 100 100) = None
   \<and> elems (packetHistory (snd (ReceivedAck testDeps sentOneFive (ackFiveAndOne 1) 1 100 100 100)))
       = []"
  by code_simp


section \<open>Sent-packet handler: CLOSE_PATH\<close>


lemma closePathAckLoop_effect:
  "elems (packetHistory (closePathAckLoop I h ps))
     = filter (\<lambda>x. elemId x \<notin> elemId ` set ps) (elems (packetHistory h))
   \<and> bytesInFlight (closePathAckLoop I h ps)
     = bytesInFlight h - sum_list (map (\<lambda>e. Length (Value e)) ps)
   \<and> retransmissionQueue (closePathAckLoop I h ps) = retransmissionQueue h
   \<and> LargestAcked (closePathAckLoop I h ps) = LargestAcked h"
proof (induction ps arbitrary: h)
  case Nil then show ?case by simp
next
  case (Cons p ps)
  let ?h1 = "onPacketAcked h p"
  let ?h2 = "?h1\<lparr>congestion := OnPacketAcked I (congestion ?h1) (PacketNumber (Value p))
                                    (Length (Value p)) (bytesInFlight ?h1)\<rparr>"
  have e: "elems (packetHistory ?h2) = filter (\<lambda>x. elemId x \<noteq> elemId p) (elems (packetHistory h))"
    "bytesInFlight ?h2 = bytesInFlight h - Length (Value p)"
    "retransmissionQueue ?h2 = retransmissionQueue h" "LargestAcked ?h2 = LargestAcked h"
    by (simp_all add: onPacketAcked_def Remove_def)
  have f: "filter (\<lambda>x. elemId x \<notin> elemId ` set ps) (filter (\<lambda>x. elemId x \<noteq> elemId p) xs)
      = filter (\<lambda>x. elemId x \<notin> elemId ` set (p # ps)) xs" for xs :: "PacketElement list"
    by (induction xs) auto
  show ?case using Cons.IH[of ?h2] e f by (simp add: Let_def algebra_simps)
qed

lemma ackLoop_effect:
  "elems (packetHistory (fst (ackLoop I f rcv h flag sd ps)))
     = filter (\<lambda>x. elemId x \<notin> elemId ` set ps) (elems (packetHistory h))
   \<and> bytesInFlight (fst (ackLoop I f rcv h flag sd ps))
     = bytesInFlight h - sum_list (map (\<lambda>e. Length (Value e)) ps)
   \<and> retransmissionQueue (fst (ackLoop I f rcv h flag sd ps)) = retransmissionQueue h
   \<and> LargestAcked (fst (ackLoop I f rcv h flag sd ps)) = LargestAcked h"
proof (induction ps arbitrary: h flag sd)
  case Nil then show ?case by simp
next
  case (Cons p ps)
  let ?h1 = "onPacketAcked h p"
  let ?h2 = "?h1\<lparr>congestion := OnPacketAcked I (congestion ?h1) (PacketNumber (Value p))
                                    (Length (Value p)) (bytesInFlight ?h1)\<rparr>"
  have e: "elems (packetHistory ?h2) = filter (\<lambda>x. elemId x \<noteq> elemId p) (elems (packetHistory h))"
    "bytesInFlight ?h2 = bytesInFlight h - Length (Value p)"
    "retransmissionQueue ?h2 = retransmissionQueue h" "LargestAcked ?h2 = LargestAcked h"
    by (simp_all add: onPacketAcked_def Remove_def)
  have f: "filter (\<lambda>x. elemId x \<notin> elemId ` set ps) (filter (\<lambda>x. elemId x \<noteq> elemId p) xs)
      = filter (\<lambda>x. elemId x \<notin> elemId ` set (p # ps)) xs" for xs :: "PacketElement list"
    by (induction xs) auto
  show ?case using Cons.IH[of ?h2] e f by (simp add: Let_def algebra_simps)
qed

lemma lostLoop_effect:
  "elems (packetHistory (lostLoop I h ps))
     = filter (\<lambda>x. elemId x \<notin> elemId ` set ps) (elems (packetHistory h))
   \<and> bytesInFlight (lostLoop I h ps)
     = bytesInFlight h - sum_list (map (\<lambda>e. Length (Value e)) ps)
   \<and> retransmissionQueue (lostLoop I h ps) = retransmissionQueue h @ map Value ps
   \<and> LargestAcked (lostLoop I h ps) = LargestAcked h"
proof (induction ps arbitrary: h)
  case Nil then show ?case by simp
next
  case (Cons p ps)
  let ?h1 = "queuePacketForRetransmission h p"
  let ?h2 = "?h1\<lparr>congestion := OnPacketLost I (congestion ?h1) (PacketNumber (Value p))
                                    (Length (Value p)) (bytesInFlight ?h1)\<rparr>"
  have e: "elems (packetHistory ?h2) = filter (\<lambda>x. elemId x \<noteq> elemId p) (elems (packetHistory h))"
    "bytesInFlight ?h2 = bytesInFlight h - Length (Value p)"
    "retransmissionQueue ?h2 = retransmissionQueue h @ [Value p]" "LargestAcked ?h2 = LargestAcked h"
    by (simp_all add: queuePacketForRetransmission_def Remove_def Let_def)
  have f: "filter (\<lambda>x. elemId x \<notin> elemId ` set ps) (filter (\<lambda>x. elemId x \<noteq> elemId p) xs)
      = filter (\<lambda>x. elemId x \<notin> elemId ` set (p # ps)) xs" for xs :: "PacketElement list"
    by (induction xs) auto
  show ?case using Cons.IH[of ?h2] e f by (simp add: Let_def algebra_simps)
qed

lemma SetInflightAsLost_effect:
  "(let lost = takeWhile (\<lambda>e. PacketNumber (Value e) \<le> LargestAcked h) (elems (packetHistory h)) in
    elems (packetHistory (SetInflightAsLost I h))
       = filter (\<lambda>x. elemId x \<notin> elemId ` set lost) (elems (packetHistory h))
    \<and> bytesInFlight (SetInflightAsLost I h)
       = bytesInFlight h - sum_list (map (\<lambda>e. Length (Value e)) lost)
    \<and> retransmissionQueue (SetInflightAsLost I h) = retransmissionQueue h @ map Value lost
    \<and> LargestAcked (SetInflightAsLost I h) = LargestAcked h)"
  using lostLoop_effect[of I "h\<lparr>losses := losses h + word_of_nat (length (takeWhile (\<lambda>e. PacketNumber (Value e) \<le> LargestAcked h) (elems (packetHistory h))))\<rparr>"
      "takeWhile (\<lambda>e. PacketNumber (Value e) \<le> LargestAcked h) (elems (packetHistory h))"]
  by (simp add: SetInflightAsLost_def inflightLoop_eq Let_def)

lemma garbageCollect_fields [simp]:
  "packetHistory (garbageCollectSkippedPackets h) = packetHistory h"
  "bytesInFlight (garbageCollectSkippedPackets h) = bytesInFlight h"
  "retransmissionQueue (garbageCollectSkippedPackets h) = retransmissionQueue h"
  "LargestAcked (garbageCollectSkippedPackets h) = LargestAcked h"
  by (simp_all add: garbageCollectSkippedPackets_def Let_def)

text \<open>
  C4, as the code has it. After a successful \<open>ReceivedClosePath\<close>, let \<open>remaining\<close> be
  the history without the packets newly acked by the frame, and \<open>lost\<close> its leading
  packets with packet number at most the \<open>LargestAcked\<close> field of the handler (the value
  set by earlier ACK frames; \<open>ReceivedClosePath\<close> does not update it from the frame). Then
  exactly the packets of \<open>lost\<close> have been removed from \<open>remaining\<close> and appended, in order,
  to the retransmission queue, and \<open>bytesInFlight\<close> has been decremented by the lengths of
  the acked and of the lost packets.
\<close>

theorem ReceivedClosePath_marks_lost:
  assumes "ReceivedClosePath I h f pn rcv = (None, h')"
  shows "\<exists>acked. determineNewlyAckedPacketsClosePath h f = Inr acked \<and>
    (let remaining = filter (\<lambda>x. elemId x \<notin> elemId ` set acked) (elems (packetHistory h));
         lost = takeWhile (\<lambda>e. PacketNumber (Value e) \<le> LargestAcked h) remaining
     in elems (packetHistory h') = filter (\<lambda>x. elemId x \<notin> elemId ` set lost) remaining
        \<and> retransmissionQueue h' = retransmissionQueue h @ map Value lost
        \<and> bytesInFlight h'
            = bytesInFlight h - sum_list (map (\<lambda>e. Length (Value e)) acked)
                - sum_list (map (\<lambda>e. Length (Value e)) lost)
        \<and> LargestAcked h' = LargestAcked h)"
proof -
  let ?h1 = "h\<lparr>largestReceivedPacketWithAck := pn\<rparr>"
  have d: "determineNewlyAckedPacketsClosePath ?h1 f = determineNewlyAckedPacketsClosePath h f"
    by (simp add: determineNewlyAckedPacketsClosePath_def)
  from assms obtain acked where a: "determineNewlyAckedPacketsClosePath h f = Inr acked"
    and h': "h' = garbageCollectSkippedPackets (SetInflightAsLost I (closePathAckLoop I ?h1 acked))"
    using d by (auto simp: ReceivedClosePath_def Let_def split: if_splits sum.splits)
  let ?h2 = "closePathAckLoop I ?h1 acked"
  have e2: "elems (packetHistory ?h2) = filter (\<lambda>x. elemId x \<notin> elemId ` set acked) (elems (packetHistory h))"
    "bytesInFlight ?h2 = bytesInFlight h - sum_list (map (\<lambda>e. Length (Value e)) acked)"
    "retransmissionQueue ?h2 = retransmissionQueue h" "LargestAcked ?h2 = LargestAcked h"
    using closePathAckLoop_effect[of I ?h1 acked] by simp_all
  show ?thesis
    using a h' e2 SetInflightAsLost_effect[of ?h2 I]
    by (simp add: Let_def)
qed

text \<open>
  On the handler that has sent packets 1, 2 and 3 and received an ACK for packet 3 alone,
  the CLOSE_PATH frame acks nothing new, and packets 1 and 2 are removed from the history
  and queued for retransmission.
\<close>

theorem ReceivedClosePath_marks_lost_witness:
  "fst (ReceivedClosePath testDeps ackedOnlyThree closePathThree 9 400) = None
   \<and> LargestAcked ackedOnlyThree = 3
   \<and> map PacketNumber
        (retransmissionQueue (snd (ReceivedClosePath testDeps ackedOnlyThree closePathThree 9 400)))
       = [1, 2]
   \<and> LargestAcked (snd (ReceivedClosePath testDeps ackedOnlyThree closePathThree 9 400)) = 3"
proof -
  have n: "fst (ReceivedClosePath testDeps ackedOnlyThree closePathThree 9 400) = None"
    by code_simp
  have a: "ReceivedClosePath testDeps ackedOnlyThree closePathThree 9 400
     = (None, snd (ReceivedClosePath testDeps ackedOnlyThree closePathThree 9 400))"
    using n by (metis prod.collapse)
  have b: "LargestAcked ackedOnlyThree = 3"
    by code_simp
  have q: "map PacketNumber
        (retransmissionQueue (snd (ReceivedClosePath testDeps ackedOnlyThree closePathThree 9 400)))
       = [1, 2]"
    by code_simp
  show ?thesis using n b q ReceivedClosePath_marks_lost[OF a] by (auto simp: Let_def)
qed

text \<open>
  C4 as stated fails: on the handler that has sent packets 1, 2 and 3 and has received no
  ACK (its \<open>LargestAcked\<close> is 0), a CLOSE_PATH frame with \<open>LargestAcked = 3\<close> that acks
  packet 3 only succeeds and leaves packets 1 and 2, which are below the frame's
  \<open>LargestAcked\<close>, in the history; nothing is queued for retransmission and
  \<open>bytesInFlight\<close> is still 1000.
\<close>

theorem close_path_leaves_unacked_packets:
  "fst (ReceivedClosePath testDeps sentThree closePathThree 1 100) = None
   \<and> map (\<lambda>e. PacketNumber (Value e))
        (elems (packetHistory (snd (ReceivedClosePath testDeps sentThree closePathThree 1 100))))
       = [1, 2]
   \<and> retransmissionQueue (snd (ReceivedClosePath testDeps sentThree closePathThree 1 100)) = []
   \<and> bytesInFlight (snd (ReceivedClosePath testDeps sentThree closePathThree 1 100)) = 1000
   \<and> ackLargestAcked closePathThree = 3
   \<and> LargestAcked sentThree = 0"
  by code_simp


section \<open>Sent-packet handler: three packets sent and acked\<close>


lemma SentPacket_retransmittable:
  assumes "lastSentPacketNumber h < PacketNumber p"
    and "\<not> MaxTrackedSentPackets I
             < word_of_nat (length (retransmissionQueue h) + Len (packetHistory h) + 1)"
    and "stripNonRetransmittableFrames (Frames p) \<noteq> []"
  shows "fst (SentPacket I h p now) = None
   \<and> elems (packetHistory (snd (SentPacket I h p now)))
       = elems (packetHistory h)
         @ [\<lparr>elemId = nextElem (packetHistory h),
             Value = p\<lparr>Frames := stripNonRetransmittableFrames (Frames p), SendTime := now\<rparr>\<rparr>]
   \<and> nextElem (packetHistory (snd (SentPacket I h p now))) = Suc (nextElem (packetHistory h))
   \<and> bytesInFlight (snd (SentPacket I h p now)) = bytesInFlight h + Length p
   \<and> lastSentPacketNumber (snd (SentPacket I h p now)) = PacketNumber p
   \<and> LargestAcked (snd (SentPacket I h p now)) = LargestAcked h
   \<and> largestReceivedPacketWithAck (snd (SentPacket I h p now)) = largestReceivedPacketWithAck h
   \<and> retransmissionQueue (snd (SentPacket I h p now)) = retransmissionQueue h
   \<and> skippedPackets (snd (SentPacket I h p now))
       = skipLoop (MaxTrackedSkippedPackets I) (lastSentPacketNumber h + 1) (PacketNumber p)
           (skippedPackets h)"
proof -
  have 1: "\<not> PacketNumber p \<le> lastSentPacketNumber h" using assms(1) by simp
  show ?thesis using 1 assms(2,3) by (simp add: SentPacket_def Let_def PushBack_def)
qed

lemma maybeUpdateRTT_eq:
  "snd (maybeUpdateRTT I h la d rcv now) = h\<lparr>congestion := congestion (snd (maybeUpdateRTT I h la d rcv now))\<rparr>"
  by (simp add: maybeUpdateRTT_def case_prod_beta)

lemma processAckedPackets_effect:
  "\<exists>h'. processAckedPackets I h f rcv ps = Some h'
     \<and> elems (packetHistory h') = filter (\<lambda>x. elemId x \<notin> elemId ` set ps) (elems (packetHistory h))
     \<and> bytesInFlight h' = bytesInFlight h - sum_list (map (\<lambda>e. Length (Value e)) ps)
     \<and> retransmissionQueue h' = retransmissionQueue h
     \<and> LargestAcked h' = LargestAcked h"
proof (cases "length ps > 0")
  case False
  then show ?thesis by (simp add: processAckedPackets_def)
next
  case True
  then show ?thesis using ackLoop_effect[of I f rcv h False 0 ps]
    by (simp add: processAckedPackets_def Let_def case_prod_beta UpdateBDW_def)
qed

lemma detectLostPackets_empty:
  "elems (packetHistory h) = [] \<Longrightarrow> detectLostPackets I h now = h\<lparr>lossTime := 0\<rparr>"
  by (simp add: detectLostPackets_def Let_def)

lemma ReceivedAck_all_acked:
  assumes "ackLargestAcked f \<le> lastSentPacketNumber h"
    and "largestReceivedPacketWithAck h < pn"
    and "largestInOrderAcked h < ackLargestAcked f"
    and "skippedPackets h = []"
    and "determineLoop f 0 (elems (packetHistory h)) [] = Inr (elems (packetHistory h))"
  shows "fst (ReceivedAck I h f pn rcv n1 n2) = None
   \<and> elems (packetHistory (snd (ReceivedAck I h f pn rcv n1 n2))) = []
   \<and> bytesInFlight (snd (ReceivedAck I h f pn rcv n1 n2))
       = bytesInFlight h - sum_list (map (\<lambda>e. Length (Value e)) (elems (packetHistory h)))
   \<and> LargestAcked (snd (ReceivedAck I h f pn rcv n1 n2)) = ackLargestAcked f"
proof -
  let ?h1 = "h\<lparr>largestReceivedPacketWithAck := pn\<rparr>"
  let ?h2 = "?h1\<lparr>LargestAcked := ackLargestAcked f\<rparr>"
  let ?m = "maybeUpdateRTT I ?h2 (ackLargestAcked f) (ackDelayTime f) rcv n1"
  let ?h3 = "snd ?m"
  let ?h4 = "if fst ?m then ?h3\<lparr>congestion := MaybeExitSlowStart I (congestion ?h3)\<rparr> else ?h3"
  have 1: "\<not> lastSentPacketNumber h < ackLargestAcked f" using assms(1) by simp
  have 2: "\<not> pn \<le> largestReceivedPacketWithAck h" using assms(2) by simp
  have 3: "largestInOrderAcked ?h1 = largestInOrderAcked h"
    by (simp add: largestInOrderAcked_def split: option.splits)
  have 4: "\<not> ackLargestAcked f \<le> largestInOrderAcked ?h1" using assms(3) 3 by simp
  have 5: "\<not> skippedPacketsAcked ?h2 f" using assms(4) by (simp add: skippedPacketsAcked_def)
  have h3: "?h3 = ?h2\<lparr>congestion := congestion ?h3\<rparr>" by (rule maybeUpdateRTT_eq)
  have f4: "packetHistory ?h4 = packetHistory h" "bytesInFlight ?h4 = bytesInFlight h"
    "LargestAcked ?h4 = ackLargestAcked f"
    by (simp_all add: maybeUpdateRTT_def case_prod_beta)
  have d: "determineNewlyAckedPackets ?h4 f = Inr (elems (packetHistory h))"
    using assms(5) f4(1) by (simp add: determineNewlyAckedPackets_def)
  obtain h5 where h5: "processAckedPackets I ?h4 f rcv (elems (packetHistory h)) = Some h5"
     "elems (packetHistory h5) = filter (\<lambda>x. elemId x \<notin> elemId ` set (elems (packetHistory h))) (elems (packetHistory ?h4))"
     "bytesInFlight h5 = bytesInFlight ?h4 - sum_list (map (\<lambda>e. Length (Value e)) (elems (packetHistory h)))"
     "LargestAcked h5 = LargestAcked ?h4"
    using processAckedPackets_effect[of I ?h4 f rcv "elems (packetHistory h)"] by blast
  have e5: "elems (packetHistory h5) = []" using h5(2) f4(1) by (simp add: filter_empty_conv)
  have r: "ReceivedAck I h f pn rcv n1 n2
    = (None, (garbageCollectSkippedPackets (updateLossDetectionAlarm I (detectLostPackets I h5 n2)))
         \<lparr>stopWaitingManager := swm_ReceivedAck (stopWaitingManager
            (garbageCollectSkippedPackets (updateLossDetectionAlarm I (detectLostPackets I h5 n2)))) f\<rparr>)"
    using 1 2 4 5 d h5(1) by (simp add: ReceivedAck_def Let_def case_prod_beta)
  show ?thesis using r e5 h5(3,4) f4 by (simp add: detectLostPackets_empty)
qed

text \<open>
  C2. On a handler created by \<open>NewSentPacketHandler\<close>, with any congestion controller
  and a ceiling of at least 3 tracked packets: \<open>SentPacket\<close> of three packets with numbers
  1, 2, 3, \<open>Length\<close> 500 each and at least one retransmittable frame succeeds and gives
  \<open>bytesInFlight = 1500\<close>; a \<open>ReceivedAck\<close> after it with \<open>LargestAcked\<close> 3,
  \<open>LowestAcked\<close> 1 and no ranges, carried in a packet number above 0, returns no error,
  leaves the history empty, and sets \<open>bytesInFlight\<close> to 0 and \<open>LargestAcked\<close> to 3.
\<close>

theorem three_packets_sent_and_acked:
  assumes "3 \<le> MaxTrackedSentPackets I"
    and "PacketNumber p1 = 1" and "PacketNumber p2 = 2" and "PacketNumber p3 = 3"
    and "Length p1 = 500" and "Length p2 = 500" and "Length p3 = 500"
    and "stripNonRetransmittableFrames (Frames p1) \<noteq> []"
    and "stripNonRetransmittableFrames (Frames p2) \<noteq> []"
    and "stripNonRetransmittableFrames (Frames p3) \<noteq> []"
    and "0 < pn"
    and "ackLargestAcked f = 3" and "ackLowestAcked f = 1" and "AckRanges f = []"
  shows "(let h0 = NewSentPacketHandler pid bdw c cb;
              r1 = SentPacket I h0 p1 t1;
              r2 = SentPacket I (snd r1) p2 t2;
              r3 = SentPacket I (snd r2) p3 t3;
              r4 = ReceivedAck I (snd r3) f pn rcv n1 n2
          in fst r1 = None \<and> fst r2 = None \<and> fst r3 = None
             \<and> bytesInFlight (snd r3) = 1500
             \<and> fst r4 = None
             \<and> elems (packetHistory (snd r4)) = []
             \<and> bytesInFlight (snd r4) = 0
             \<and> LargestAcked (snd r4) = 3)"
proof -
  let ?h0 = "NewSentPacketHandler pid bdw c cb :: 'a sentPacketHandler"
  let ?r1 = "SentPacket I ?h0 p1 t1"
  let ?r2 = "SentPacket I (snd ?r1) p2 t2"
  let ?r3 = "SentPacket I (snd ?r2) p3 t3"
  have m1: "\<not> MaxTrackedSentPackets I < 1" "\<not> MaxTrackedSentPackets I < 2" "\<not> MaxTrackedSentPackets I < 3"
    using assms(1) by (simp_all add: word_less_nat_alt word_le_nat_alt)
  have s1: "fst ?r1 = None"
     "elems (packetHistory (snd ?r1)) = [\<lparr>elemId = 0, Value = p1\<lparr>Frames := stripNonRetransmittableFrames (Frames p1), SendTime := t1\<rparr>\<rparr>]"
     "nextElem (packetHistory (snd ?r1)) = 1"
     "bytesInFlight (snd ?r1) = 500" "lastSentPacketNumber (snd ?r1) = 1" "LargestAcked (snd ?r1) = 0"
     "largestReceivedPacketWithAck (snd ?r1) = 0" "retransmissionQueue (snd ?r1) = []"
     "skippedPackets (snd ?r1) = []"
    using SentPacket_retransmittable[of ?h0 p1 I t1] assms m1
    by (simp_all add: NewSentPacketHandler_def NewPacketList_def Len_def skipLoop.simps)
  have s2: "fst ?r2 = None"
     "elems (packetHistory (snd ?r2)) = [\<lparr>elemId = 0, Value = p1\<lparr>Frames := stripNonRetransmittableFrames (Frames p1), SendTime := t1\<rparr>\<rparr>,
        \<lparr>elemId = 1, Value = p2\<lparr>Frames := stripNonRetransmittableFrames (Frames p2), SendTime := t2\<rparr>\<rparr>]"
     "nextElem (packetHistory (snd ?r2)) = 2"
     "bytesInFlight (snd ?r2) = 1000" "lastSentPacketNumber (snd ?r2) = 2" "LargestAcked (snd ?r2) = 0"
     "largestReceivedPacketWithAck (snd ?r2) = 0" "retransmissionQueue (snd ?r2) = []"
     "skippedPackets (snd ?r2) = []"
    using SentPacket_retransmittable[of "snd ?r1" p2 I t2] assms m1 s1
    by (simp_all add: Len_def skipLoop.simps)
  have s3: "fst ?r3 = None"
     "elems (packetHistory (snd ?r3)) = [\<lparr>elemId = 0, Value = p1\<lparr>Frames := stripNonRetransmittableFrames (Frames p1), SendTime := t1\<rparr>\<rparr>,
        \<lparr>elemId = 1, Value = p2\<lparr>Frames := stripNonRetransmittableFrames (Frames p2), SendTime := t2\<rparr>\<rparr>,
        \<lparr>elemId = 2, Value = p3\<lparr>Frames := stripNonRetransmittableFrames (Frames p3), SendTime := t3\<rparr>\<rparr>]"
     "bytesInFlight (snd ?r3) = 1500" "lastSentPacketNumber (snd ?r3) = 3" "LargestAcked (snd ?r3) = 0"
     "largestReceivedPacketWithAck (snd ?r3) = 0" "retransmissionQueue (snd ?r3) = []"
     "skippedPackets (snd ?r3) = []"
    using SentPacket_retransmittable[of "snd ?r2" p3 I t3] assms m1 s2
    by (simp_all add: Len_def skipLoop.simps)
  have a: "ackLargestAcked f \<le> lastSentPacketNumber (snd ?r3)" using assms s3 by simp
  have b: "largestReceivedPacketWithAck (snd ?r3) < pn" using assms s3 by simp
  have c: "largestInOrderAcked (snd ?r3) < ackLargestAcked f"
    using assms s3 by (simp add: largestInOrderAcked_def Front_def)
  have d: "determineLoop f 0 (elems (packetHistory (snd ?r3))) [] = Inr (elems (packetHistory (snd ?r3)))"
    using assms s3 by (simp add: HasMissingRanges_def Let_def word_less_nat_alt)
  have r4: "fst (ReceivedAck I (snd ?r3) f pn rcv n1 n2) = None
   \<and> elems (packetHistory (snd (ReceivedAck I (snd ?r3) f pn rcv n1 n2))) = []
   \<and> bytesInFlight (snd (ReceivedAck I (snd ?r3) f pn rcv n1 n2)) = 0
   \<and> LargestAcked (snd (ReceivedAck I (snd ?r3) f pn rcv n1 n2)) = 3"
    using ReceivedAck_all_acked[OF a b c s3(8) d, of I rcv n1 n2] s3 assms by simp
  show ?thesis unfolding Let_def using s1(1) s2(1) s3(1) s3(3) r4 by simp
qed


text \<open>The theorem with the stateless congestion controller, three stream packets sent at
  times 10, 20 and 30, and the ACK carried in packet 1.\<close>

theorem three_packets_sent_and_acked_witness:
  "3 \<le> MaxTrackedSentPackets testDeps
   \<and> stripNonRetransmittableFrames (Frames (dataPacket 1)) \<noteq> []
   \<and> bytesInFlight sentThree = 1500
   \<and> fst (ReceivedAck testDeps sentThree ackOneToThree 1 100 100 100) = None
   \<and> elems (packetHistory ackedThree) = []
   \<and> bytesInFlight ackedThree = 0
   \<and> LargestAcked ackedThree = 3"
proof -
  have m: "3 \<le> MaxTrackedSentPackets testDeps"
    by (simp add: testDeps_def)
  have s: "stripNonRetransmittableFrames (Frames (dataPacket n)) \<noteq> []" for n
    by (simp add: dataPacket_def stripNonRetransmittableFrames_def IsFrameRetransmittable_def)
  have e: "sentThree
      = snd (SentPacket testDeps
               (snd (SentPacket testDeps
                       (snd (SentPacket testDeps freshHandler (dataPacket 1) 10))
                       (dataPacket 2) 20))
               (dataPacket 3) 30)"
    by (simp add: sentThree_def runOps_def)
  show ?thesis
    using m s e
      three_packets_sent_and_acked[OF m, of "dataPacket 1" "dataPacket 2" "dataPacket 3" 1
        ackOneToThree 0 "NewBDWStats 0" "()" None 10 20 30 100 100 100]
    unfolding Let_def
    by (simp add: dataPacket_def ackOneToThree_def freshHandler_def ackedThree_def)
qed

section \<open>Packet packer: results\<close>

lemma noStopWaiting_simps [simp]:
  "noStopWaiting []"
  "noStopWaiting (f # fs) = (\<not> isStopWaiting f \<and> noStopWaiting fs)"
  "noStopWaiting (fs @ gs) = (noStopWaiting fs \<and> noStopWaiting gs)"
  "noStopWaiting (rev fs) = noStopWaiting fs"
  "noStopWaiting (map FStream ss)"
  "noStopWaiting (map FBlocked bs)"
  by (auto simp: noStopWaiting_def list_ex_iff isStopWaiting_def)



lemma controlLoop_frames:
  "controlLoop E m cf len fs = (e, rest, len', fs') \<Longrightarrow> noStopWaiting cf \<Longrightarrow>
     noStopWaiting rest \<and> (noStopWaiting fs \<longrightarrow> noStopWaiting fs')"
proof (induction cf arbitrary: len fs)
  case Nil then show ?case by auto
next
  case (Cons a cf)
  then show ?case by (auto split: sum.splits if_splits)
qed


lemma composeWith_controlFrames:
  assumes "noStopWaiting (controlFrames p)"
  shows "noStopWaiting (controlFrames (snd (composeWith pop E p m c pid)))"
  using assms
  by (auto simp: composeWith_def Let_def dest: controlLoop_frames
      split: option.splits sum.splits prod.splits if_splits)




lemma packCryptoPacket_state: "snd (packCryptoPacket E p) = p"
  by (auto simp: packCryptoPacket_def Let_def split: sum.splits)










end
